theory Spec2Isabelle
  imports Complex_Main
begin

section \<open>Data model (frontend/src/types and the interfaces of App.tsx)\<close>

text \<open>
  The TypeScript interfaces become records, the string-literal unions become datatypes.
  Server-assigned identifiers are integers (\<open>number\<close> in the source, always integral).
  An optional or nullable field is an \<open>option\<close>.
\<close>

datatype HttpMethod = GET | POST | PUT | DELETE | PATCH | HEAD | OPTIONS

datatype BodyType = Json | Form | Raw

record Request =
  req_id :: int
  req_name :: string
  req_method :: HttpMethod
  req_url :: string
  req_headers :: "(string \<times> string) list"
  req_query_params :: "(string \<times> string) list"
  req_body_type :: "BodyType option"
  req_body :: "string option"
  req_folder_id :: "int option"
  req_sort_order :: int

datatype Folder =
  Folder (fld_id: int) (fld_name: string) (parent_folder_id: "int option")
    (fld_sort_order: int) (children: "Folder list") (requests: "Request list")

datatype DragItemType = RequestItem | FolderItem

datatype GapPosition = Before | After

datatype DropKind = Gap | OnFolder

record DragData =
  drag_type :: DragItemType
  drag_id :: int
  drag_folderId :: "int option"

record DropTarget =
  target_type :: DropKind
  target_position :: "GapPosition option"
  target_refId :: "int option"
  target_refType :: "DragItemType option"
  targetFolderId :: "int option"

section \<open>dragUtils: the reorder engine\<close>

text \<open>
  \<open>Array.prototype.findIndex\<close>: the index of the first element satisfying the predicate,
  \<open>-1\<close> when there is none.
\<close>

fun findIndex :: "('a \<Rightarrow> bool) \<Rightarrow> 'a list \<Rightarrow> int" where
  "findIndex P [] = -1"
| "findIndex P (x # xs) =
     (if P x then 0 else (let r = findIndex P xs in if r = -1 then -1 else r + 1))"

text \<open>
  \<open>arr.splice(start, 0, item)\<close>: insertion at \<open>start\<close>; a negative start counts from
  the end, and the start is clamped to the bounds of the array.
\<close>

definition splice_insert :: "int \<Rightarrow> 'a \<Rightarrow> 'a list \<Rightarrow> 'a list" where
  "splice_insert start x xs =
     (let n = int (length xs);
          k = (if start < 0 then max (n + start) 0 else min start n)
      in take (nat k) xs @ [x] @ drop (nat k) xs)"

text \<open>
  \<open>reorderList<T extends {id: number}>\<close>: the type parameter's \<open>id\<close> field is the
  projection \<open>ident\<close>.
\<close>

definition reorderList ::
  "('a \<Rightarrow> int) \<Rightarrow> 'a list \<Rightarrow> int \<Rightarrow> int \<Rightarrow> GapPosition \<Rightarrow> 'a list" where
  "reorderList ident items dragId refId pos =
     (case List.find (\<lambda>item. ident item = dragId) items of
        None \<Rightarrow> items
      | Some dragItem \<Rightarrow>
          (let remaining = filter (\<lambda>item. ident item \<noteq> dragId) items;
               refIndex = findIndex (\<lambda>item. ident item = refId) remaining
           in if refIndex = -1 then items
              else (let insertIndex = (if pos = Before then refIndex else refIndex + 1)
                    in splice_insert insertIndex dragItem remaining)))"

text \<open>
  \<open>calcGapPosition\<close>: the midpoint of the hovered element is the tie-break line. Pointer
  coordinates and the bounding rectangle are CSS pixel lengths, taken as real numbers.
\<close>

record Rect =
  rect_top :: real
  rect_height :: real

definition calcGapPosition :: "real \<Rightarrow> Rect \<Rightarrow> GapPosition" where
  "calcGapPosition mouseY elementRect =
     (let midY = rect_top elementRect + rect_height elementRect / 2
      in if mouseY < midY then Before else After)"

text \<open>\<open>isValidDrop\<close>: the drop-target validation function of dragUtils.\<close>

definition isValidDrop :: "DragItemType \<Rightarrow> DropTarget \<Rightarrow> bool" where
  "isValidDrop dragType tgt =
     (if target_type tgt = Gap then
        (case dragType of
           RequestItem \<Rightarrow> target_refType tgt = Some RequestItem
         | FolderItem \<Rightarrow> target_refType tgt = Some FolderItem)
      else if target_type tgt = OnFolder then
        (case dragType of RequestItem \<Rightarrow> True | FolderItem \<Rightarrow> True)
      else False)"

section \<open>App.tsx: tree state, drag handlers and drop handlers\<close>

text \<open>
  The part of the component state the drag-and-drop handlers read and write. \<open>error_shown\<close>
  stands for the \<open>error\<close> state variable being set by \<open>setError\<close>.
\<close>

record TreeState =
  folders :: "Folder list"
  standaloneRequests :: "Request list"
  dragData :: "DragData option"
  dropTarget :: "DropTarget option"
  error_shown :: bool

text \<open>
  The calls to the REST collaborator (\<open>api.requests.*\<close>, \<open>api.folders.*\<close>, and the four
  reads of \<open>loadData\<close>), recorded in the order they are issued.
\<close>

datatype ApiCall =
    RequestsReorder "int list"
  | FoldersReorder "int list"
  | RequestsUpdate int "int option"
  | FoldersUpdate int "int option"
  | EnvironmentsList
  | HistoryList
  | FoldersTree
  | FoldersStandaloneRequests

definition handleDragOver :: "real \<Rightarrow> Rect \<Rightarrow> int \<Rightarrow> DragItemType \<Rightarrow> TreeState \<Rightarrow> TreeState" where
  "handleDragOver clientY rect itemId itemType st =
     (case dragData st of
        None \<Rightarrow> st
      | Some d \<Rightarrow>
          st\<lparr>dropTarget := Some \<lparr>target_type = Gap,
                                 target_position = Some (calcGapPosition clientY rect),
                                 target_refId = Some itemId,
                                 target_refType = Some itemType,
                                 targetFolderId = None\<rparr>\<rparr>)"

definition handleFolderDragOver :: "int \<Rightarrow> TreeState \<Rightarrow> TreeState" where
  "handleFolderDragOver folderId st =
     (case dragData st of
        None \<Rightarrow> st
      | Some d \<Rightarrow>
          st\<lparr>dropTarget := Some \<lparr>target_type = OnFolder,
                                 target_position = None,
                                 target_refId = None,
                                 target_refType = None,
                                 targetFolderId = Some folderId\<rparr>\<rparr>)"

text \<open>The \<open>onDragOver\<close> handler of a folder row in \<open>renderFolderTree\<close>.\<close>

definition folderRowDragOver :: "real \<Rightarrow> Rect \<Rightarrow> int \<Rightarrow> TreeState \<Rightarrow> TreeState" where
  "folderRowDragOver clientY rect folderId st =
     (let relativeY = clientY - rect_top rect;
          threshold = rect_height rect * 0.25
      in if relativeY < threshold \<or> relativeY > rect_height rect - threshold
         then handleDragOver clientY rect folderId FolderItem st
         else handleFolderDragOver folderId st)"

text \<open>The \<open>onDragOver\<close> handler of a request row in \<open>renderRequestItem\<close>.\<close>

definition requestRowDragOver :: "real \<Rightarrow> Rect \<Rightarrow> int \<Rightarrow> TreeState \<Rightarrow> TreeState" where
  "requestRowDragOver clientY rect reqId st = handleDragOver clientY rect reqId RequestItem st"

text \<open>\<open>renderGapIndicator\<close>: whether the gap indicator element is rendered.\<close>

definition renderGapIndicator :: "GapPosition \<Rightarrow> int \<Rightarrow> TreeState \<Rightarrow> bool" where
  "renderGapIndicator pos itemId st =
     (case dropTarget st of
        None \<Rightarrow> False
      | Some t \<Rightarrow> target_type t = Gap \<and> target_refId t = Some itemId
                  \<and> target_position t = Some pos)"

text \<open>
  The two sibling lookups. The inner \<open>searchFolders\<close> closures return \<open>null\<close> (here
  \<open>None\<close>) when nothing is found; an array, also an empty one, is truthy.
\<close>

fun searchFolderRequests :: "int \<Rightarrow> Folder list \<Rightarrow> Request list option" where
  "searchFolderRequests r [] = None"
| "searchFolderRequests r (Folder i n p s ch rq # rest) =
     (if list_ex (\<lambda>x. req_id x = r) rq then Some rq
      else (case searchFolderRequests r ch of
              Some found \<Rightarrow> Some found
            | None \<Rightarrow> searchFolderRequests r rest))"

definition getSiblingRequests :: "TreeState \<Rightarrow> int \<Rightarrow> Request list" where
  "getSiblingRequests st r =
     (if list_ex (\<lambda>x. req_id x = r) (standaloneRequests st) then standaloneRequests st
      else (case searchFolderRequests r (folders st) of Some found \<Rightarrow> found | None \<Rightarrow> []))"

fun searchFolderChildren :: "int \<Rightarrow> Folder list \<Rightarrow> Folder list option" where
  "searchFolderChildren r [] = None"
| "searchFolderChildren r (Folder i n p s ch rq # rest) =
     (if list_ex (\<lambda>f. fld_id f = r) ch then Some ch
      else (case searchFolderChildren r ch of
              Some found \<Rightarrow> Some found
            | None \<Rightarrow> searchFolderChildren r rest))"

definition getSiblingFolders :: "TreeState \<Rightarrow> int \<Rightarrow> Folder list" where
  "getSiblingFolders st r =
     (if list_ex (\<lambda>f. fld_id f = r) (folders st) then folders st
      else (case searchFolderChildren r (folders st) of Some found \<Rightarrow> found | None \<Rightarrow> []))"

text \<open>
  \<open>handleGapDrop\<close>, as the list of calls it issues. The non-null assertions
  \<open>target.refId!\<close> and \<open>target.position!\<close> have no run-time effect: an absent
  \<open>refId\<close> equals no id, so the lookup yields \<open>[]\<close> and \<open>reorderList\<close> returns it; an
  absent \<open>position\<close> is not \<open>'before'\<close>, so the \<open>after\<close> branch is taken.
\<close>

definition reorderRequestsFor :: "TreeState \<Rightarrow> int \<Rightarrow> DropTarget \<Rightarrow> Request list" where
  "reorderRequestsFor st dragId tgt =
     (case target_refId tgt of
        None \<Rightarrow> []
      | Some r \<Rightarrow>
          reorderList req_id (getSiblingRequests st r) dragId r
            (case target_position tgt of Some p \<Rightarrow> p | None \<Rightarrow> After))"

definition reorderFoldersFor :: "TreeState \<Rightarrow> int \<Rightarrow> DropTarget \<Rightarrow> Folder list" where
  "reorderFoldersFor st dragId tgt =
     (case target_refId tgt of
        None \<Rightarrow> []
      | Some r \<Rightarrow>
          reorderList fld_id (getSiblingFolders st r) dragId r
            (case target_position tgt of Some p \<Rightarrow> p | None \<Rightarrow> After))"

definition handleGapDrop :: "TreeState \<Rightarrow> DragData \<Rightarrow> DropTarget \<Rightarrow> ApiCall list" where
  "handleGapDrop st drag tgt =
     (if drag_type drag = RequestItem \<and> target_refType tgt = Some RequestItem then
        [RequestsReorder (map req_id (reorderRequestsFor st (drag_id drag) tgt))]
      else if drag_type drag = FolderItem \<and> target_refType tgt = Some FolderItem then
        [FoldersReorder (map fld_id (reorderFoldersFor st (drag_id drag) tgt))]
      else [])"

definition handleFolderDrop :: "DragData \<Rightarrow> DropTarget \<Rightarrow> ApiCall list" where
  "handleFolderDrop drag tgt =
     (case drag_type drag of
        RequestItem \<Rightarrow> [RequestsUpdate (drag_id drag) (targetFolderId tgt)]
      | FolderItem \<Rightarrow> [FoldersUpdate (drag_id drag) (targetFolderId tgt)])"

definition loadData_calls :: "ApiCall list" where
  "loadData_calls = [EnvironmentsList, HistoryList, FoldersTree, FoldersStandaloneRequests]"

text \<open>
  \<open>handleDrop\<close>. The collaborator is a parameter: \<open>rejects c\<close> tells whether the call
  \<open>c\<close> throws. A rejected call skips the reload and sets the error (\<open>loadData\<close> sets it
  too when one of its reads is rejected); the \<open>finally\<close> block clears both drag slots.
  The snapshots that \<open>loadData\<close> installs come from the server: the result keeps the old
  \<open>folders\<close> and \<open>standaloneRequests\<close> and lists the reads instead.
\<close>

definition handleDrop :: "(ApiCall \<Rightarrow> bool) \<Rightarrow> TreeState \<Rightarrow> TreeState \<times> ApiCall list" where
  "handleDrop rejects st =
     (case (dragData st, dropTarget st) of
        (Some drag, Some tgt) \<Rightarrow>
          (let calls = (if target_type tgt = Gap then handleGapDrop st drag tgt
                        else handleFolderDrop drag tgt);
               failed = list_ex rejects calls
           in (st\<lparr>dragData := None, dropTarget := None,
                   error_shown := (error_shown st \<or> failed
                                   \<or> list_ex rejects loadData_calls)\<rparr>,
               if failed then calls else calls @ loadData_calls))
      | _ \<Rightarrow> (st, []))"

definition handleDragEnd :: "TreeState \<Rightarrow> TreeState" where
  "handleDragEnd st = st\<lparr>dragData := None, dropTarget := None\<rparr>"

text \<open>
  For stating the cycle guard: the ids of a folder and of all folders below it, the ids of
  all folders of a forest, and the ids of all requests of the tree.
\<close>

fun folder_ids :: "Folder \<Rightarrow> int list" where
  "folder_ids (Folder i n p s ch rq) = i # concat (map folder_ids ch)"

definition forest_folder_ids :: "Folder list \<Rightarrow> int list" where
  "forest_folder_ids fs = concat (map folder_ids fs)"

fun folder_request_ids :: "Folder \<Rightarrow> int list" where
  "folder_request_ids (Folder i n p s ch rq) =
     map req_id rq @ concat (map folder_request_ids ch)"

definition tree_request_ids :: "TreeState \<Rightarrow> int list" where
  "tree_request_ids st =
     map req_id (standaloneRequests st) @ concat (map folder_request_ids (folders st))"

section \<open>App.tsx: the multi-tab editing session\<close>

record ParamItem =
  param_key :: string
  param_value :: string
  description :: string
  enabled :: bool

record ExecuteResponse =
  status_code :: int
  status_text :: string
  resp_headers :: "(string \<times> string) list"
  resp_body :: "string option"
  response_time_ms :: int
  response_size :: int
  warnings :: "string list"

record History =
  hist_id :: int
  hist_method :: HttpMethod
  hist_url :: string
  request_headers :: "(string \<times> string) list"
  request_body :: "string option"
  hist_status_code :: int
  hist_status_text :: string
  response_headers :: "(string \<times> string) list"
  response_body :: "string option"
  hist_response_time_ms :: int
  hist_response_size :: int

record RequestTab =
  tab_id :: string
  requestId :: "int option"
  tab_name :: string
  tab_method :: HttpMethod
  tab_url :: string
  headers :: "ParamItem list"
  queryParams :: "ParamItem list"
  tab_body :: string
  folder_id :: "int option"
  response :: "ExecuteResponse option"
  dirty :: bool

text \<open>
  The session: \<open>openTabs\<close>, \<open>activeTabId\<close> (the empty string when no tab is active) and
  the counter behind \<open>makeTabId\<close>.
\<close>

record Session =
  openTabs :: "RequestTab list"
  activeTabId :: string
  tabCounter :: nat

datatype JsError = TypeError

definition emptyParam :: ParamItem where
  "emptyParam = \<lparr>param_key = [], param_value = [], description = [], enabled = True\<rparr>"

text \<open>The decimal digits of a number, as a template literal prints it.\<close>

fun string_of_nat :: "nat \<Rightarrow> string" where
  "string_of_nat n =
     (if n < 10 then [char_of (48 + n)]
      else string_of_nat (n div 10) @ [char_of (48 + n mod 10)])"

declare string_of_nat.simps [simp del]

definition tabIdOf :: "nat \<Rightarrow> string" where
  "tabIdOf n = ''tab-'' @ string_of_nat n"

definition makeTabId :: "Session \<Rightarrow> string \<times> Session" where
  "makeTabId st = (tabIdOf (tabCounter st), st\<lparr>tabCounter := tabCounter st + 1\<rparr>)"

text \<open>
  The two user-visible labels of the source are Chinese text; they are kept as their UTF-8
  bytes.
\<close>

definition newRequestLabel :: string where
  "newRequestLabel =
     [CHR 0xE6, CHR 0x96, CHR 0xB0, CHR 0xE5, CHR 0xBB, CHR 0xBA,
      CHR 0xE8, CHR 0xAF, CHR 0xB7, CHR 0xE6, CHR 0xB1, CHR 0x82]"

definition historyLabel :: string where
  "historyLabel =
     [CHR 0xE5, CHR 0x8E, CHR 0x86, CHR 0xE5, CHR 0x8F, CHR 0xB2,
      CHR 0xE8, CHR 0xAE, CHR 0xB0, CHR 0xE5, CHR 0xBD, CHR 0x95] @ '' - ''"

fun method_name :: "HttpMethod \<Rightarrow> string" where
  "method_name GET = ''GET''"
| "method_name POST = ''POST''"
| "method_name PUT = ''PUT''"
| "method_name DELETE = ''DELETE''"
| "method_name PATCH = ''PATCH''"
| "method_name HEAD = ''HEAD''"
| "method_name OPTIONS = ''OPTIONS''"

definition initialSession :: Session where
  "initialSession =
     \<lparr>openTabs = [\<lparr>tab_id = ''tab-0'', requestId = None, tab_name = newRequestLabel,
                    tab_method = GET, tab_url = [], headers = [emptyParam],
                    queryParams = [emptyParam], tab_body = [], folder_id = None,
                    response = None, dirty = True\<rparr>],
      activeTabId = ''tab-0'',
      tabCounter = 1\<rparr>"

text \<open>\<open>currentTab = openTabs.find(t => t.id === activeTabId) || openTabs[0]\<close>.\<close>

definition currentTab :: "Session \<Rightarrow> RequestTab option" where
  "currentTab st =
     (case List.find (\<lambda>t. tab_id t = activeTabId st) (openTabs st) of
        Some t \<Rightarrow> Some t
      | None \<Rightarrow> (case openTabs st of [] \<Rightarrow> None | t # ts \<Rightarrow> Some t))"

record CurrentRequest =
  cur_id :: "int option"
  cur_name :: string
  cur_method :: HttpMethod
  cur_url :: string
  cur_headers :: "ParamItem list"
  cur_queryParams :: "ParamItem list"
  cur_body :: string
  cur_folder_id :: "int option"

text \<open>
  \<open>currentRequest\<close>: the fields of the current tab; the \<open>||\<close> fallbacks only apply to
  values that are already the fallback (the empty string) or cannot be falsy (an array, a
  method name), so they matter only when there is no tab at all.
\<close>

definition currentRequest :: "Session \<Rightarrow> CurrentRequest" where
  "currentRequest st =
     (case currentTab st of
        None \<Rightarrow>
          \<lparr>cur_id = None, cur_name = [], cur_method = GET, cur_url = [],
           cur_headers = [emptyParam], cur_queryParams = [emptyParam], cur_body = [],
           cur_folder_id = None\<rparr>
      | Some t \<Rightarrow>
          \<lparr>cur_id = requestId t, cur_name = tab_name t, cur_method = tab_method t,
           cur_url = tab_url t, cur_headers = headers t, cur_queryParams = queryParams t,
           cur_body = tab_body t, cur_folder_id = folder_id t\<rparr>)"

definition setCurrentRequest :: "CurrentRequest \<Rightarrow> Session \<Rightarrow> Session" where
  "setCurrentRequest req st =
     st\<lparr>openTabs :=
          map (\<lambda>t. if tab_id t = activeTabId st
                    then t\<lparr>requestId := cur_id req, tab_name := cur_name req,
                           tab_method := cur_method req, tab_url := cur_url req,
                           headers := cur_headers req, queryParams := cur_queryParams req,
                           tab_body := cur_body req, folder_id := cur_folder_id req,
                           dirty := True\<rparr>
                    else t)
              (openTabs st)\<rparr>"

definition setResponse :: "ExecuteResponse option \<Rightarrow> Session \<Rightarrow> Session" where
  "setResponse resp st =
     st\<lparr>openTabs :=
          map (\<lambda>t. if tab_id t = activeTabId st then t\<lparr>response := resp\<rparr> else t)
              (openTabs st)\<rparr>"

text \<open>
  The field edits of the editor pane: every \<open>onChange\<close>/\<open>onClick\<close> handler there calls
  \<open>setCurrentRequest({...currentRequest, field: v})\<close> for one of these five fields.
\<close>

datatype FieldEdit =
    SetMethod HttpMethod
  | SetUrl string
  | SetBody string
  | SetHeaders "ParamItem list"
  | SetQueryParams "ParamItem list"

fun patched :: "FieldEdit \<Rightarrow> CurrentRequest \<Rightarrow> CurrentRequest" where
  "patched (SetMethod m) req = req\<lparr>cur_method := m\<rparr>"
| "patched (SetUrl u) req = req\<lparr>cur_url := u\<rparr>"
| "patched (SetBody b) req = req\<lparr>cur_body := b\<rparr>"
| "patched (SetHeaders hs) req = req\<lparr>cur_headers := hs\<rparr>"
| "patched (SetQueryParams qs) req = req\<lparr>cur_queryParams := qs\<rparr>"

definition editField :: "FieldEdit \<Rightarrow> Session \<Rightarrow> Session" where
  "editField e st = setCurrentRequest (patched e (currentRequest st)) st"

text \<open>
  \<open>saveRequest\<close>. \<open>reply\<close> is the collaborator's answer: \<open>None\<close> when the call throws
  (the tabs stay as they are), \<open>Some cid\<close> when it succeeds, \<open>cid\<close> being the id of the
  created request (not used after an update). \<open>if (currentRequest.id)\<close> and
  \<open>if (nameOverride)\<close> are truthiness tests: \<open>0\<close> and the empty string are falsy.
\<close>

definition or_empty :: "string option \<Rightarrow> string" where
  "or_empty s = (case s of None \<Rightarrow> [] | Some x \<Rightarrow> x)"

definition truthy_id :: "int option \<Rightarrow> bool" where
  "truthy_id i = (case i of None \<Rightarrow> False | Some n \<Rightarrow> n \<noteq> 0)"

definition truthy_string :: "string option \<Rightarrow> bool" where
  "truthy_string s = (case s of None \<Rightarrow> False | Some x \<Rightarrow> x \<noteq> [])"

definition saveRequest :: "string option \<Rightarrow> int option \<Rightarrow> Session \<Rightarrow> Session" where
  "saveRequest nameOverride reply st =
     (let cur = currentRequest st;
          name = (if truthy_string nameOverride then or_empty nameOverride
                  else cur_name cur)
      in case reply of
           None \<Rightarrow> st
         | Some cid \<Rightarrow>
             (let st1 = (if truthy_id (cur_id cur) then st
                         else setCurrentRequest (cur\<lparr>cur_id := Some cid, cur_name := name\<rparr>) st)
              in st1\<lparr>openTabs :=
                       map (\<lambda>t. if tab_id t = activeTabId st
                                 then (if truthy_string nameOverride
                                       then t\<lparr>tab_name := name, dirty := False\<rparr>
                                       else t\<lparr>dirty := False\<rparr>)
                                 else t)
                           (openTabs st1)\<rparr>))"

definition paramsOf :: "(string \<times> string) list \<Rightarrow> ParamItem list" where
  "paramsOf entries =
     map (\<lambda>(k, v). \<lparr>param_key = k, param_value = v, description = [], enabled = True\<rparr>)
         entries @ [emptyParam]"

text \<open>
  \<open>loadRequest\<close>. \<open>req.body || ''\<close> and \<open>req.folder_id || undefined\<close> turn \<open>null\<close>
  (and the falsy \<open>0\<close>) into the fallback.
\<close>

definition loadRequest :: "Request \<Rightarrow> Session \<Rightarrow> Session" where
  "loadRequest req st =
     (case List.find (\<lambda>t. requestId t = Some (req_id req)) (openTabs st) of
        Some existing \<Rightarrow> st\<lparr>activeTabId := tab_id existing\<rparr>
      | None \<Rightarrow>
          (let (newId, st1) = makeTabId st;
               newTab = \<lparr>tab_id = newId, requestId = Some (req_id req),
                         tab_name = req_name req, tab_method = req_method req,
                         tab_url = req_url req, headers = paramsOf (req_headers req),
                         queryParams = paramsOf (req_query_params req),
                         tab_body = or_empty (req_body req),
                         folder_id = (if truthy_id (req_folder_id req)
                                      then req_folder_id req else None),
                         response = None, dirty = False\<rparr>
           in st1\<lparr>openTabs := openTabs st1 @ [newTab], activeTabId := newId\<rparr>))"

definition newRequest :: "int option \<Rightarrow> Session \<Rightarrow> Session" where
  "newRequest folderId st =
     (let (newId, st1) = makeTabId st;
          newTab = \<lparr>tab_id = newId, requestId = None, tab_name = newRequestLabel,
                    tab_method = GET, tab_url = [], headers = [emptyParam],
                    queryParams = [emptyParam], tab_body = [], folder_id = folderId,
                    response = None, dirty = True\<rparr>
      in st1\<lparr>openTabs := openTabs st1 @ [newTab], activeTabId := newId\<rparr>)"

text \<open>
  \<open>closeTab\<close>. When the closed tab is the active one and tabs remain, the source reads
  \<open>remaining[Math.min(idx, remaining.length - 1)].id\<close>; with \<open>idx = -1\<close> (no tab has
  the id) the element is \<open>undefined\<close> and reading its \<open>id\<close> throws.
\<close>

definition closeTab :: "string \<Rightarrow> Session \<Rightarrow> JsError + Session" where
  "closeTab tabId st =
     (let tabs = openTabs st;
          remaining = filter (\<lambda>t. tab_id t \<noteq> tabId) tabs
      in if activeTabId st = tabId then
           (if length remaining > 0 then
              (let idx = findIndex (\<lambda>t. tab_id t = tabId) tabs;
                   j = min idx (int (length remaining) - 1)
               in if j < 0 then Inl TypeError
                  else Inr (st\<lparr>openTabs := remaining,
                                activeTabId := tab_id (remaining ! nat j)\<rparr>))
            else Inr (st\<lparr>openTabs := remaining, activeTabId := []\<rparr>))
         else Inr (st\<lparr>openTabs := remaining\<rparr>))"

definition closeOtherTabs :: "string \<Rightarrow> Session \<Rightarrow> Session" where
  "closeOtherTabs tabId st =
     (let keep = filter (\<lambda>t. tab_id t = tabId) (openTabs st)
      in if length keep = 0 then st
         else st\<lparr>openTabs := keep, activeTabId := tabId\<rparr>)"

definition closeAllTabs :: "Session \<Rightarrow> Session" where
  "closeAllTabs st = st\<lparr>openTabs := [], activeTabId := []\<rparr>"

text \<open>The tab-strip click: \<open>setActiveTabId(tab.id)\<close>.\<close>

definition selectTab :: "string \<Rightarrow> Session \<Rightarrow> Session" where
  "selectTab tabId st = st\<lparr>activeTabId := tabId\<rparr>"

text \<open>The confirmed \<open>deleteRequest\<close>, after the collaborator's delete succeeded.\<close>

definition deleteRequest :: "int \<Rightarrow> Session \<Rightarrow> JsError + Session" where
  "deleteRequest rid st =
     (case List.find (\<lambda>t. requestId t = Some rid) (openTabs st) of
        Some tab \<Rightarrow> closeTab (tab_id tab) st
      | None \<Rightarrow> Inr st)"

text \<open>
  \<open>loadFromHistory\<close>. The \<open>body_json\<close> field of the response (the parsed body) is not
  part of the model.
\<close>

definition loadFromHistory :: "History \<Rightarrow> Session \<Rightarrow> Session" where
  "loadFromHistory h st =
     (let (newId, st1) = makeTabId st;
          newTab = \<lparr>tab_id = newId, requestId = None,
                    tab_name = historyLabel @ method_name (hist_method h),
                    tab_method = hist_method h, tab_url = hist_url h,
                    headers = paramsOf (request_headers h),
                    queryParams = [emptyParam],
                    tab_body = or_empty (request_body h),
                    folder_id = None,
                    response = Some \<lparr>status_code = hist_status_code h,
                                      status_text = hist_status_text h,
                                      resp_headers = response_headers h,
                                      resp_body = response_body h,
                                      response_time_ms = hist_response_time_ms h,
                                      response_size = hist_response_size h,
                                      warnings = []\<rparr>,
                    dirty = True\<rparr>
      in st1\<lparr>openTabs := openTabs st1 @ [newTab], activeTabId := newId\<rparr>)"

text \<open>
  The user gestures that change the session, and the states they lead to from the initial
  one. Ids of created requests come from the persistence layer, which assigns each id once:
  the reply to a save carries an id that no open tab is linked to.
\<close>

datatype Event =
    LoadRequest Request
  | NewRequest "int option"
  | EditField FieldEdit
  | SetResponse "ExecuteResponse option"
  | SaveRequest "string option" "int option"
  | CloseTab string
  | CloseOtherTabs string
  | CloseAllTabs
  | SelectTab string
  | DeleteRequest int
  | LoadFromHistory History

fun apply_event :: "Event \<Rightarrow> Session \<Rightarrow> JsError + Session" where
  "apply_event (LoadRequest r) st = Inr (loadRequest r st)"
| "apply_event (NewRequest f) st = Inr (newRequest f st)"
| "apply_event (EditField e) st = Inr (editField e st)"
| "apply_event (SetResponse r) st = Inr (setResponse r st)"
| "apply_event (SaveRequest n reply) st = Inr (saveRequest n reply st)"
| "apply_event (CloseTab i) st = closeTab i st"
| "apply_event (CloseOtherTabs i) st = Inr (closeOtherTabs i st)"
| "apply_event CloseAllTabs st = Inr (closeAllTabs st)"
| "apply_event (SelectTab i) st = Inr (selectTab i st)"
| "apply_event (DeleteRequest rid) st = deleteRequest rid st"
| "apply_event (LoadFromHistory h) st = Inr (loadFromHistory h st)"

definition linked_ids :: "RequestTab list \<Rightarrow> int list" where
  "linked_ids tabs = List.map_filter requestId tabs"

fun fresh_reply :: "Event \<Rightarrow> Session \<Rightarrow> bool" where
  "fresh_reply (SaveRequest n (Some cid)) st = (cid \<notin> set (linked_ids (openTabs st)))"
| "fresh_reply e st = True"

inductive reachable :: "Session \<Rightarrow> bool" where
  reachable_init: "reachable initialSession"
| reachable_step:
    "reachable st \<Longrightarrow> fresh_reply e st \<Longrightarrow> apply_event e st = Inr st' \<Longrightarrow> reachable st'"

text \<open>
  The invariant of the session: tab ids are unique, every tab id was produced by
  \<open>makeTabId\<close> from a counter value already used (the initial \<open>tab-0\<close> counts as the
  value 0), and no two tabs are linked to the same persisted request.
\<close>

definition session_inv :: "Session \<Rightarrow> bool" where
  "session_inv st \<longleftrightarrow>
     distinct (map tab_id (openTabs st)) \<and>
     list_all (\<lambda>t. \<exists>k<tabCounter st. tab_id t = tabIdOf k) (openTabs st) \<and>
     distinct (linked_ids (openTabs st))"

text \<open>Reading a decimal numeral back, to show that \<open>tabIdOf\<close> is injective.\<close>

definition digits_value :: "string \<Rightarrow> nat" where
  "digits_value s = foldl (\<lambda>acc c. 10 * acc + (of_char c - 48)) 0 s"

section \<open>Example values for the closed theorems\<close>

definition exRequest :: "int \<Rightarrow> Request" where
  "exRequest i = \<lparr>req_id = i, req_name = ''r'', req_method = GET, req_url = [],
     req_headers = [], req_query_params = [], req_body_type = None, req_body = None,
     req_folder_id = None, req_sort_order = 0\<rparr>"

definition exTree :: TreeState where
  "exTree = \<lparr>folders = [Folder 1 ''F'' None 0 [Folder 2 ''D'' (Some 1) 0 [] [exRequest 5]] []],
     standaloneRequests = [exRequest 3, exRequest 4],
     dragData = None, dropTarget = None, error_shown = False\<rparr>"

definition exDrag :: "DragItemType \<Rightarrow> int \<Rightarrow> DragData" where
  "exDrag k i = \<lparr>drag_type = k, drag_id = i, drag_folderId = None\<rparr>"

definition exRect :: Rect where
  "exRect = \<lparr>rect_top = 100, rect_height = 40\<rparr>"

definition gapTarget :: "GapPosition \<Rightarrow> int \<Rightarrow> DragItemType \<Rightarrow> DropTarget" where
  "gapTarget p r k = \<lparr>target_type = Gap, target_position = Some p, target_refId = Some r,
     target_refType = Some k, targetFolderId = None\<rparr>"

definition folderTarget :: "int \<Rightarrow> DropTarget" where
  "folderTarget f = \<lparr>target_type = OnFolder, target_position = None, target_refId = None,
     target_refType = None, targetFolderId = Some f\<rparr>"

definition exTab :: "string \<Rightarrow> int option \<Rightarrow> RequestTab" where
  "exTab i r = \<lparr>tab_id = i, requestId = r, tab_name = ''t'', tab_method = GET, tab_url = [],
     headers = [emptyParam], queryParams = [emptyParam], tab_body = [], folder_id = None,
     response = None, dirty = False\<rparr>"

definition exSession :: Session where
  "exSession = \<lparr>openTabs = [exTab ''tab-0'' None, exTab ''tab-1'' (Some 7), exTab ''tab-2'' None],
     activeTabId = ''tab-2'', tabCounter = 3\<rparr>"

section \<open>Properties of the reorder engine\<close>

lemma findIndex_ge: "- 1 \<le> findIndex P xs"
  by (induction xs) (auto simp: Let_def)

lemma findIndex_none: "findIndex P xs = - 1 \<longleftrightarrow> \<not> list_ex P xs"
proof (induction xs)
  case Nil
  show ?case by simp
next
  case (Cons x xs)
  have "- 1 \<le> findIndex P xs" by (rule findIndex_ge)
  with Cons show ?case by (auto simp: Let_def)
qed

lemma findIndex_first:
  "list_ex P xs \<Longrightarrow>
     \<exists>ys b zs. xs = ys @ b # zs \<and> P b \<and> \<not> list_ex P ys \<and> findIndex P xs = int (length ys)"
proof (induction xs)
  case Nil
  then show ?case by simp
next
  case (Cons x xs)
  show ?case
  proof (cases "P x")
    case True
    then have "x # xs = [] @ x # xs \<and> P x \<and> \<not> list_ex P []
        \<and> findIndex P (x # xs) = int (length ([]::'a list))"
      by simp
    then show ?thesis by blast
  next
    case False
    with Cons.prems have "list_ex P xs" by simp
    from Cons.IH[OF this] obtain ys b zs where
      h: "xs = ys @ b # zs" "P b" "\<not> list_ex P ys" "findIndex P xs = int (length ys)"
      by blast
    from h False have "x # xs = (x # ys) @ b # zs \<and> P b \<and> \<not> list_ex P (x # ys) \<and>
        findIndex P (x # xs) = int (length (x # ys))"
      by (simp add: Let_def)
    then show ?thesis by blast
  qed
qed

lemma splice_insert_at: "splice_insert (int (length ys)) x (ys @ zs) = ys @ x # zs"
  by (simp add: splice_insert_def Let_def)

lemma splice_insert_after:
  "splice_insert (int (length ys) + 1) x (ys @ b # zs) = ys @ b # x # zs"
proof -
  have "int (length ys) + 1 = int (length (ys @ [b]))" by simp
  then have "splice_insert (int (length ys) + 1) x ((ys @ [b]) @ zs) = (ys @ [b]) @ x # zs"
    by (simp only: splice_insert_at)
  then show ?thesis by simp
qed

lemma find_none_list_ex: "List.find P xs = None \<longleftrightarrow> \<not> list_ex P xs"
  by (auto simp: find_None_iff list_ex_iff)

lemma find_distinct_key:
  "distinct (map f S) \<Longrightarrow> a \<in> set S \<Longrightarrow> List.find (\<lambda>x. f x = f a) S = Some a"
  by (induction S) (auto simp: image_iff)

lemma filter_distinct_key:
  "distinct (map f S) \<Longrightarrow> a \<in> set S \<Longrightarrow> filter (\<lambda>x. f x \<noteq> f a) S = remove1 a S"
proof (induction S)
  case Nil
  then show ?case by simp
next
  case (Cons x S)
  show ?case
  proof (cases "x = a")
    case True
    with Cons.prems have "\<forall>y\<in>set S. f y \<noteq> f a" by (auto simp: image_iff)
    then have "filter (\<lambda>x. f x \<noteq> f a) S = S" by (simp add: filter_id_conv)
    with True show ?thesis by simp
  next
    case False
    with Cons.prems have "a \<in> set S" "f x \<noteq> f a" "distinct (map f S)" by auto
    with Cons.IH False show ?thesis by simp
  qed
qed

text \<open>
  Claim C2. In a sibling sequence \<open>S\<close> (ids unique, as the data model has them) with two
  different items \<open>a\<close> and \<open>b\<close>, \<open>reorderList\<close> with \<open>before\<close> returns \<open>S\<close> with \<open>a\<close>
  taken out and put back immediately before \<open>b\<close>, and with \<open>after\<close> immediately after
  \<open>b\<close>: the other items (\<open>remove1 a S\<close>, which is \<open>xs @ b # ys\<close>) keep their order. The
  scenario of the specification, \<open>[1, 2, 3]\<close> with drag 3 and reference 1, gives
  \<open>[3, 1, 2]\<close>.
\<close>

theorem reorderList_places_adjacent:
  assumes d: "distinct (map ident S)" and a: "a \<in> set S" and b: "b \<in> set S"
    and ne: "ident a \<noteq> ident b"
  shows "(\<exists>xs ys. remove1 a S = xs @ b # ys \<and>
            reorderList ident S (ident a) (ident b) Before = xs @ a # b # ys \<and>
            reorderList ident S (ident a) (ident b) After = xs @ b # a # ys) \<and>
         reorderList (\<lambda>x. x) [1, 2, 3] 3 1 Before = [3, 1, 2]"
proof -
  let ?rem = "filter (\<lambda>item. ident item \<noteq> ident a) S"
  let ?P = "\<lambda>item. ident item = ident b"
  have f: "List.find (\<lambda>item. ident item = ident a) S = Some a"
    using d a by (rule find_distinct_key)
  have r: "?rem = remove1 a S" using d a by (rule filter_distinct_key)
  from b ne have "b \<in> set ?rem" by auto
  then have ex: "list_ex ?P ?rem" unfolding list_ex_iff by blast
  from findIndex_first[OF ex] obtain ys b' zs where
    h: "?rem = ys @ b' # zs" "ident b' = ident b" "findIndex ?P ?rem = int (length ys)"
    by blast
  from h(1) have "b' \<in> set ?rem" by simp
  then have "b' \<in> set S" by simp
  with d b h(2) have bb: "b' = b" by (meson distinct_map inj_onD)
  have nz: "findIndex ?P ?rem \<noteq> - 1" using h(3) by simp
  have bef: "reorderList ident S (ident a) (ident b) Before = ys @ a # b # zs"
    using f nz h(1,3) bb
    by (simp add: reorderList_def Let_def splice_insert_at)
  have aft: "reorderList ident S (ident a) (ident b) After = ys @ b # a # zs"
    using f nz h(1,3) bb
    by (simp add: reorderList_def Let_def splice_insert_after)
  from r h(1) bb have "remove1 a S = ys @ b # zs" by simp
  with bef aft have gen: "\<exists>xs ys. remove1 a S = xs @ b # ys \<and>
      reorderList ident S (ident a) (ident b) Before = xs @ a # b # ys \<and>
      reorderList ident S (ident a) (ident b) After = xs @ b # a # ys"
    by blast
  have scen: "reorderList (\<lambda>x. x) [1, 2, 3] 3 1 Before = [3, 1, 2]"
    by (simp add: reorderList_def splice_insert_def)
  from gen scen show ?thesis by blast
qed

theorem reorderList_places_adjacent_witness:
  "(\<exists>xs ys. remove1 (3::int) [1, 2, 3] = xs @ 1 # ys \<and>
      reorderList (\<lambda>x. x) [1, 2, 3] 3 1 Before = xs @ 3 # 1 # ys \<and>
      reorderList (\<lambda>x. x) [1, 2, 3] 3 1 After = xs @ 1 # 3 # ys) \<and>
   reorderList (\<lambda>x. x) [1, 2, 3] 3 1 Before = [3, 1, 2]"
proof -
  have h1: "distinct (map (\<lambda>x. x) [1, 2, 3::int])" by simp
  have h2: "(3::int) \<in> set [1, 2, 3]" by simp
  have h3: "(1::int) \<in> set [1, 2, 3]" by simp
  have h4: "(3::int) \<noteq> 1" by simp
  show ?thesis
    by (rule reorderList_places_adjacent [of "\<lambda>x. x" "[1, 2, 3::int]" 3 1, OF h1 h2 h3 h4])
qed

text \<open>
  Claim C5. \<open>reorderList\<close> returns its input unchanged when no item has the drag id, and
  when no item of the sequence left after removing the dragged item has the reference id.
\<close>

theorem reorderList_unchanged:
  assumes "\<not> list_ex (\<lambda>item. ident item = dragId) S \<or>
           \<not> list_ex (\<lambda>item. ident item = refId) (filter (\<lambda>item. ident item \<noteq> dragId) S)"
  shows "reorderList ident S dragId refId pos = S"
  using assms
  by (auto simp: reorderList_def Let_def findIndex_none find_none_list_ex[symmetric]
           split: option.splits)

theorem reorderList_unchanged_witness:
  "reorderList (\<lambda>x. x) [1, 2, 3] 9 1 Before = [1, 2, 3] \<and>
   reorderList (\<lambda>x. x) [1, 2, 3] 2 9 After = [1, 2, 3] \<and>
   reorderList (\<lambda>x. x) [1, 2, 3] 2 2 After = [1, 2, 3]"
  using reorderList_unchanged [of "\<lambda>x. x" 9 "[1, 2, 3::int]" 1 Before]
        reorderList_unchanged [of "\<lambda>x. x" 2 "[1, 2, 3::int]" 9 After]
        reorderList_unchanged [of "\<lambda>x. x" 2 "[1, 2, 3::int]" 2 After]
  by simp

section \<open>Properties of the drop resolver\<close>

text \<open>
  Claim C8. During a drag, for a pointer inside a folder row (offset \<open>y\<close> between 0 and
  the height \<open>h\<close>), the row's \<open>onDragOver\<close> handler resolves \<open>y < h/4\<close> to a gap before
  the folder, \<open>y > 3h/4\<close> to a gap after it, and the closed middle zone
  \<open>h/4 \<le> y \<le> 3h/4\<close> to the folder as container; the exact centre is in the middle zone.
  Lengths are real numbers here.
\<close>

theorem folder_row_zones:
  assumes drag: "dragData st = Some d"
    and lo: "rect_top rect \<le> clientY"
    and hi: "clientY \<le> rect_top rect + rect_height rect"
  shows "(clientY - rect_top rect < rect_height rect / 4 \<longrightarrow>
            dropTarget (folderRowDragOver clientY rect folderId st)
              = Some (gapTarget Before folderId FolderItem)) \<and>
         (clientY - rect_top rect > 3 * rect_height rect / 4 \<longrightarrow>
            dropTarget (folderRowDragOver clientY rect folderId st)
              = Some (gapTarget After folderId FolderItem)) \<and>
         (rect_height rect / 4 \<le> clientY - rect_top rect \<and>
          clientY - rect_top rect \<le> 3 * rect_height rect / 4 \<longrightarrow>
            dropTarget (folderRowDragOver clientY rect folderId st)
              = Some (folderTarget folderId)) \<and>
         (clientY - rect_top rect = rect_height rect / 2 \<longrightarrow>
            dropTarget (folderRowDragOver clientY rect folderId st)
              = Some (folderTarget folderId))"
  using drag lo hi
  by (auto simp: folderRowDragOver_def handleDragOver_def handleFolderDragOver_def
        calcGapPosition_def gapTarget_def folderTarget_def Let_def)

theorem folder_row_zones_witness:
  "dropTarget (folderRowDragOver 105 exRect 2 (exTree\<lparr>dragData := Some (exDrag FolderItem 1)\<rparr>))
     = Some (gapTarget Before 2 FolderItem) \<and>
   dropTarget (folderRowDragOver 135 exRect 2 (exTree\<lparr>dragData := Some (exDrag FolderItem 1)\<rparr>))
     = Some (gapTarget After 2 FolderItem) \<and>
   dropTarget (folderRowDragOver 120 exRect 2 (exTree\<lparr>dragData := Some (exDrag FolderItem 1)\<rparr>))
     = Some (folderTarget 2)"
  using folder_row_zones [of "exTree\<lparr>dragData := Some (exDrag FolderItem 1)\<rparr>" "exDrag FolderItem 1" exRect 105 2]
        folder_row_zones [of "exTree\<lparr>dragData := Some (exDrag FolderItem 1)\<rparr>" "exDrag FolderItem 1" exRect 135 2]
        folder_row_zones [of "exTree\<lparr>dragData := Some (exDrag FolderItem 1)\<rparr>" "exDrag FolderItem 1" exRect 120 2]
  by (simp add: exRect_def)

text \<open>
  What \<open>isValidDrop\<close> accepts: a gap only for a reference of the dragged kind.
\<close>

lemma isValidDrop_gap_kind:
  "isValidDrop k tgt \<Longrightarrow> target_type tgt = Gap \<Longrightarrow> target_refType tgt = Some k"
  by (cases k) (auto simp: isValidDrop_def)

text \<open>
  Claim C3, at a concrete input. A request is dragged over the top quarter of the row of
  folder 2: \<open>handleDragOver\<close> sets a gap target whose reference kind is folder, the
  gap indicator before folder 2 is rendered, and \<open>isValidDrop\<close> rejects this very
  pairing. The hover path never consults \<open>isValidDrop\<close>; the drop path
  (\<open>handleGapDrop\<close>) does compare the kinds and issues no call for it.
\<close>

theorem mismatched_gap_surfaced:
  "dropTarget (folderRowDragOver 105 exRect 2 (exTree\<lparr>dragData := Some (exDrag RequestItem 3)\<rparr>))
     = Some (gapTarget Before 2 FolderItem) \<and>
   renderGapIndicator Before 2
     (folderRowDragOver 105 exRect 2 (exTree\<lparr>dragData := Some (exDrag RequestItem 3)\<rparr>)) \<and>
   \<not> isValidDrop RequestItem (gapTarget Before 2 FolderItem) \<and>
   handleGapDrop exTree (exDrag RequestItem 3) (gapTarget Before 2 FolderItem) = []"
  by (simp add: folderRowDragOver_def handleDragOver_def calcGapPosition_def gapTarget_def
        renderGapIndicator_def isValidDrop_def exRect_def handleGapDrop_def exDrag_def Let_def)

section \<open>Properties of the drop handlers\<close>

lemma searchFolderRequests_absent:
  "r \<notin> set (concat (map folder_request_ids fs)) \<Longrightarrow> searchFolderRequests r fs = None"
proof (induction r fs rule: searchFolderRequests.induct)
  case (1 r)
  show ?case by simp
next
  case (2 r i n p s ch rq rest)
  from "2.prems" have a: "r \<notin> req_id ` set rq"
    and b: "r \<notin> set (concat (map folder_request_ids ch))"
    and c: "r \<notin> set (concat (map folder_request_ids rest))" by auto
  from a have nl: "\<not> list_ex (\<lambda>x. req_id x = r) rq" by (auto simp: list_ex_iff)
  from "2.IH"(1)[OF nl b] have ch: "searchFolderRequests r ch = None" .
  from "2.IH"(2)[OF nl ch c] have "searchFolderRequests r rest = None" .
  with nl ch show ?case by simp
qed

lemma fld_id_in_folder_ids: "fld_id f \<in> set (folder_ids f)"
  by (cases f) simp

lemma searchFolderChildren_absent:
  "r \<notin> set (forest_folder_ids fs) \<Longrightarrow> searchFolderChildren r fs = None"
proof (induction r fs rule: searchFolderChildren.induct)
  case (1 r)
  show ?case by simp
next
  case (2 r i n p s ch rq rest)
  from "2.prems" have b: "r \<notin> set (forest_folder_ids ch)"
    and c: "r \<notin> set (forest_folder_ids rest)"
    by (auto simp: forest_folder_ids_def)
  have top: "\<not> list_ex (\<lambda>f. fld_id f = r) ch"
  proof
    assume "list_ex (\<lambda>f. fld_id f = r) ch"
    then obtain f where f: "f \<in> set ch" "fld_id f = r" by (auto simp: list_ex_iff)
    with fld_id_in_folder_ids[of f] have "r \<in> set (folder_ids f)" by simp
    with f(1) b show False by (auto simp: forest_folder_ids_def)
  qed
  from "2.IH"(1)[OF top b] have ch: "searchFolderChildren r ch = None" .
  from "2.IH"(2)[OF top ch c] have "searchFolderChildren r rest = None" .
  with top ch show ?case by simp
qed

lemma getSiblingRequests_absent:
  "r \<notin> set (tree_request_ids st) \<Longrightarrow> getSiblingRequests st r = []"
proof -
  assume a: "r \<notin> set (tree_request_ids st)"
  then have "\<not> list_ex (\<lambda>x. req_id x = r) (standaloneRequests st)"
    by (auto simp: tree_request_ids_def list_ex_iff)
  moreover from a have "searchFolderRequests r (folders st) = None"
    by (intro searchFolderRequests_absent) (simp add: tree_request_ids_def)
  ultimately show ?thesis by (simp add: getSiblingRequests_def)
qed

lemma getSiblingFolders_absent:
  "r \<notin> set (forest_folder_ids (folders st)) \<Longrightarrow> getSiblingFolders st r = []"
proof -
  assume a: "r \<notin> set (forest_folder_ids (folders st))"
  have "\<not> list_ex (\<lambda>f. fld_id f = r) (folders st)"
  proof
    assume "list_ex (\<lambda>f. fld_id f = r) (folders st)"
    then obtain f where f: "f \<in> set (folders st)" "fld_id f = r" by (auto simp: list_ex_iff)
    with fld_id_in_folder_ids[of f] have "r \<in> set (folder_ids f)" by simp
    with f(1) a show False by (auto simp: forest_folder_ids_def)
  qed
  moreover from a have "searchFolderChildren r (folders st) = None"
    by (rule searchFolderChildren_absent)
  ultimately show ?thesis by (simp add: getSiblingFolders_def)
qed

lemma reorderList_nil: "reorderList ident [] dragId refId pos = []"
  by (simp add: reorderList_def)

text \<open>
  Claim C4 as stated fails: with a reference id that is nowhere in the tree, a
  request-on-request gap drop still issues \<open>api.requests.reorder\<close>, with an empty id list.
\<close>

theorem gap_drop_missing_reference_counterexample:
  "3 \<notin> set (tree_request_ids (exTree\<lparr>standaloneRequests := []\<rparr>)) \<and>
   3 \<notin> set (forest_folder_ids (folders exTree)) \<and>
   handleGapDrop (exTree\<lparr>standaloneRequests := []\<rparr>) (exDrag RequestItem 5)
      (gapTarget Before 3 RequestItem) = [RequestsReorder []] \<and>
   snd (handleDrop (\<lambda>c. False)
          (exTree\<lparr>standaloneRequests := [], dragData := Some (exDrag RequestItem 5),
                  dropTarget := Some (gapTarget Before 3 RequestItem)\<rparr>))
     = RequestsReorder [] # loadData_calls"
  by (simp add: tree_request_ids_def forest_folder_ids_def exTree_def exRequest_def
        handleGapDrop_def handleDrop_def exDrag_def gapTarget_def reorderRequestsFor_def
        getSiblingRequests_def reorderList_def)

text \<open>
  Claim C4, amended. When the reference id of a gap target is nowhere in the tree, both
  sibling lookups return the empty list and the client code raises no failure of its own.
  \<open>handleGapDrop\<close> issues exactly one reorder call carrying the empty id list when the
  dragged kind equals the reference kind, and no call when the kinds differ. A run of
  \<open>handleDrop\<close> on such a target therefore issues the empty reorder followed by the
  reload, unless the collaborator rejects the reorder: then the reload is skipped and the
  error is shown. With differing kinds it issues the reload alone. In every case both
  drag slots are cleared.
\<close>

theorem gap_drop_missing_reference:
  assumes ref: "target_refId tgt = Some r"
    and nr: "r \<notin> set (tree_request_ids st)"
    and nf: "r \<notin> set (forest_folder_ids (folders st))"
  shows "getSiblingRequests st r = [] \<and> getSiblingFolders st r = [] \<and>
         handleGapDrop st drag tgt =
           (if target_refType tgt = Some (drag_type drag)
            then [case drag_type drag of
                    RequestItem \<Rightarrow> RequestsReorder []
                  | FolderItem \<Rightarrow> FoldersReorder []]
            else []) \<and>
         (dragData st = Some drag \<and> dropTarget st = Some tgt \<and> target_type tgt = Gap \<longrightarrow>
            snd (handleDrop rejects st) =
              (if target_refType tgt = Some (drag_type drag)
               then (case drag_type drag of
                       RequestItem \<Rightarrow>
                         (if rejects (RequestsReorder []) then [RequestsReorder []]
                          else RequestsReorder [] # loadData_calls)
                     | FolderItem \<Rightarrow>
                         (if rejects (FoldersReorder []) then [FoldersReorder []]
                          else FoldersReorder [] # loadData_calls))
               else loadData_calls) \<and>
            error_shown (fst (handleDrop rejects st)) =
              (error_shown st \<or>
               (target_refType tgt = Some (drag_type drag) \<and>
                rejects (case drag_type drag of
                           RequestItem \<Rightarrow> RequestsReorder []
                         | FolderItem \<Rightarrow> FoldersReorder [])) \<or>
               list_ex rejects loadData_calls) \<and>
            dragData (fst (handleDrop rejects st)) = None \<and>
            dropTarget (fst (handleDrop rejects st)) = None)"
proof -
  have a: "getSiblingRequests st r = []" using nr by (rule getSiblingRequests_absent)
  have b: "getSiblingFolders st r = []" using nf by (rule getSiblingFolders_absent)
  have c: "reorderRequestsFor st (drag_id drag) tgt = []"
    by (simp add: reorderRequestsFor_def ref a reorderList_nil)
  have e: "reorderFoldersFor st (drag_id drag) tgt = []"
    by (simp add: reorderFoldersFor_def ref b reorderList_nil)
  have g: "handleGapDrop st drag tgt =
           (if target_refType tgt = Some (drag_type drag)
            then [case drag_type drag of
                    RequestItem \<Rightarrow> RequestsReorder []
                  | FolderItem \<Rightarrow> FoldersReorder []]
            else [])"
    by (cases "drag_type drag") (auto simp: c e handleGapDrop_def)
  have h: "dragData st = Some drag \<and> dropTarget st = Some tgt \<and> target_type tgt = Gap \<longrightarrow>
            snd (handleDrop rejects st) =
              (if target_refType tgt = Some (drag_type drag)
               then (case drag_type drag of
                       RequestItem \<Rightarrow>
                         (if rejects (RequestsReorder []) then [RequestsReorder []]
                          else RequestsReorder [] # loadData_calls)
                     | FolderItem \<Rightarrow>
                         (if rejects (FoldersReorder []) then [FoldersReorder []]
                          else FoldersReorder [] # loadData_calls))
               else loadData_calls) \<and>
            error_shown (fst (handleDrop rejects st)) =
              (error_shown st \<or>
               (target_refType tgt = Some (drag_type drag) \<and>
                rejects (case drag_type drag of
                           RequestItem \<Rightarrow> RequestsReorder []
                         | FolderItem \<Rightarrow> FoldersReorder [])) \<or>
               list_ex rejects loadData_calls) \<and>
            dragData (fst (handleDrop rejects st)) = None \<and>
            dropTarget (fst (handleDrop rejects st)) = None"
    by (cases "drag_type drag") (simp_all add: handleDrop_def Let_def g)
  from a b g h show ?thesis by blast
qed

theorem gap_drop_missing_reference_witness:
  "getSiblingRequests exTree 9 = [] \<and> getSiblingFolders exTree 9 = [] \<and>
   handleGapDrop exTree (exDrag RequestItem 3) (gapTarget Before 9 RequestItem)
     = [RequestsReorder []] \<and>
   snd (handleDrop (\<lambda>c. False)
          (exTree\<lparr>dragData := Some (exDrag RequestItem 3),
                  dropTarget := Some (gapTarget Before 9 RequestItem)\<rparr>))
     = RequestsReorder [] # loadData_calls \<and>
   snd (handleDrop (\<lambda>c. c = RequestsReorder [])
          (exTree\<lparr>dragData := Some (exDrag RequestItem 3),
                  dropTarget := Some (gapTarget Before 9 RequestItem)\<rparr>))
     = [RequestsReorder []] \<and>
   error_shown (fst (handleDrop (\<lambda>c. c = RequestsReorder [])
          (exTree\<lparr>dragData := Some (exDrag RequestItem 3),
                  dropTarget := Some (gapTarget Before 9 RequestItem)\<rparr>))) \<and>
   snd (handleDrop (\<lambda>c. False)
          (exTree\<lparr>dragData := Some (exDrag FolderItem 1),
                  dropTarget := Some (gapTarget Before 9 RequestItem)\<rparr>))
     = loadData_calls"
proof -
  define stq where "stq = exTree\<lparr>dragData := Some (exDrag RequestItem 3),
                                 dropTarget := Some (gapTarget Before 9 RequestItem)\<rparr>"
  define stf where "stf = exTree\<lparr>dragData := Some (exDrag FolderItem 1),
                                 dropTarget := Some (gapTarget Before 9 RequestItem)\<rparr>"
  have h1: "target_refId (gapTarget Before 9 RequestItem) = Some 9"
    by (simp add: gapTarget_def)
  have h2: "9 \<notin> set (tree_request_ids exTree)"
    by (simp add: tree_request_ids_def exTree_def exRequest_def)
  have h3: "9 \<notin> set (forest_folder_ids (folders exTree))"
    by (simp add: forest_folder_ids_def exTree_def)
  have q2: "9 \<notin> set (tree_request_ids stq)"
    using h2 by (simp add: tree_request_ids_def stq_def)
  have q3: "9 \<notin> set (forest_folder_ids (folders stq))" using h3 by (simp add: stq_def)
  have f2: "9 \<notin> set (tree_request_ids stf)"
    using h2 by (simp add: tree_request_ids_def stf_def)
  have f3: "9 \<notin> set (forest_folder_ids (folders stf))" using h3 by (simp add: stf_def)
  have w1: "getSiblingRequests exTree 9 = [] \<and> getSiblingFolders exTree 9 = [] \<and>
      handleGapDrop exTree (exDrag RequestItem 3) (gapTarget Before 9 RequestItem)
        = [RequestsReorder []]"
    using gap_drop_missing_reference [OF h1 h2 h3, of "exDrag RequestItem 3"]
    by (simp add: gapTarget_def exDrag_def)
  have w2: "snd (handleDrop (\<lambda>c. False) stq) = RequestsReorder [] # loadData_calls"
    using gap_drop_missing_reference [OF h1 q2 q3, of "exDrag RequestItem 3" "\<lambda>c. False"]
    by (simp add: gapTarget_def exDrag_def stq_def)
  have w3: "snd (handleDrop (\<lambda>c. c = RequestsReorder []) stq) = [RequestsReorder []] \<and>
            error_shown (fst (handleDrop (\<lambda>c. c = RequestsReorder []) stq))"
    using gap_drop_missing_reference [OF h1 q2 q3, of "exDrag RequestItem 3"
        "\<lambda>c. c = RequestsReorder []"]
    by (simp add: gapTarget_def exDrag_def stq_def)
  have w4: "snd (handleDrop (\<lambda>c. False) stf) = loadData_calls"
    using gap_drop_missing_reference [OF h1 f2 f3, of "exDrag FolderItem 1" "\<lambda>c. False"]
    by (simp add: gapTarget_def exDrag_def stf_def)
  from w1 w2 w3 w4 show ?thesis unfolding stq_def stf_def by blast
qed

text \<open>
  Claim C1 as stated fails: folder 1 contains folder 2, and dropping folder 1 onto the
  row of folder 2 issues \<open>api.folders.update(1, {parent_folder_id: 2})\<close> and the reload.
\<close>

theorem folder_drop_into_descendant_counterexample:
  "Folder 1 ''F'' None 0 [Folder 2 ''D'' (Some 1) 0 [] [exRequest 5]] [] \<in> set (folders exTree) \<and>
   2 \<in> set (folder_ids (Folder 1 ''F'' None 0 [Folder 2 ''D'' (Some 1) 0 [] [exRequest 5]] [])) \<and>
   snd (handleDrop (\<lambda>c. False)
          (handleFolderDragOver 2 (exTree\<lparr>dragData := Some (exDrag FolderItem 1)\<rparr>)))
     = FoldersUpdate 1 (Some 2) # loadData_calls"
  by (simp add: exTree_def handleDrop_def handleFolderDragOver_def handleFolderDrop_def
        exDrag_def Let_def)

text \<open>
  Claim C1, amended. The client has no cycle guard: a folder dropped onto another folder
  \<open>t\<close>, descendant or not, always makes \<open>handleDrop\<close> issue the folder update with
  \<open>parent_folder_id = t\<close>, followed by the reload unless the collaborator rejects the
  update; both drag slots are cleared.
\<close>

theorem folder_drop_unguarded:
  assumes "dragData st = Some drag" and "drag_type drag = FolderItem"
    and "dropTarget st = Some tgt" and "target_type tgt = OnFolder"
    and "targetFolderId tgt = Some t" and "t \<noteq> drag_id drag"
  shows "snd (handleDrop rejects st) =
           FoldersUpdate (drag_id drag) (Some t) #
             (if rejects (FoldersUpdate (drag_id drag) (Some t)) then [] else loadData_calls)
         \<and> dragData (fst (handleDrop rejects st)) = None
         \<and> dropTarget (fst (handleDrop rejects st)) = None"
  using assms by (simp add: handleDrop_def handleFolderDrop_def Let_def)

theorem folder_drop_unguarded_witness:
  "snd (handleDrop (\<lambda>c. False)
          (handleFolderDragOver 2 (exTree\<lparr>dragData := Some (exDrag FolderItem 1)\<rparr>)))
     = FoldersUpdate 1 (Some 2) # loadData_calls \<and>
   dragData (fst (handleDrop (\<lambda>c. False)
          (handleFolderDragOver 2 (exTree\<lparr>dragData := Some (exDrag FolderItem 1)\<rparr>)))) = None"
  using folder_drop_unguarded [of
      "handleFolderDragOver 2 (exTree\<lparr>dragData := Some (exDrag FolderItem 1)\<rparr>)"
      "exDrag FolderItem 1" "folderTarget 2" 2 "\<lambda>c. False"]
  by (simp add: handleFolderDragOver_def exDrag_def folderTarget_def)

section \<open>Properties of the tab session\<close>

lemma findIndex_distinct_nth:
  "distinct (map f xs) \<Longrightarrow> i < length xs \<Longrightarrow> findIndex (\<lambda>x. f x = f (xs ! i)) xs = int i"
proof (induction xs arbitrary: i)
  case Nil
  then show ?case by simp
next
  case (Cons x xs)
  show ?case
  proof (cases i)
    case 0
    then show ?thesis by simp
  next
    case (Suc k)
    with Cons.prems have k: "k < length xs" and dx: "distinct (map f xs)"
      and nx: "f x \<notin> f ` set xs" by auto
    from k nx have "f x \<noteq> f (xs ! k)" by (metis image_eqI nth_mem)
    with Cons.IH[OF dx k] Suc show ?thesis by (simp add: Let_def)
  qed
qed

lemma filter_distinct_nth:
  "distinct (map f xs) \<Longrightarrow> i < length xs \<Longrightarrow>
     filter (\<lambda>x. f x \<noteq> f (xs ! i)) xs = take i xs @ drop (Suc i) xs"
proof (induction xs arbitrary: i)
  case Nil
  then show ?case by simp
next
  case (Cons x xs)
  from Cons.prems have dx: "distinct (map f xs)" and nx: "f x \<notin> f ` set xs" by auto
  show ?case
  proof (cases i)
    case 0
    from nx have "\<forall>y\<in>set xs. f y \<noteq> f x" by (auto simp: image_iff)
    then have "filter (\<lambda>y. f y \<noteq> f x) xs = xs" by (simp add: filter_id_conv)
    with 0 show ?thesis by simp
  next
    case (Suc k)
    with Cons.prems have k: "k < length xs" by simp
    from k nx have "f x \<noteq> f (xs ! k)" by (metis image_eqI nth_mem)
    with Cons.IH[OF dx k] Suc show ?thesis by simp
  qed
qed

text \<open>
  Claim C7. In a tab list of length \<open>n\<close> (tab ids unique) whose active tab is at index
  \<open>i\<close>, closing the active tab removes it and activates the tab at index
  \<open>min i (n - 2)\<close> of the remaining list; when \<open>n = 1\<close> no tab remains and the active
  id becomes the empty string.
\<close>

theorem closeTab_active:
  assumes d: "distinct (map tab_id (openTabs st))"
    and i: "i < length (openTabs st)"
    and act: "tab_id (openTabs st ! i) = activeTabId st"
  shows "\<exists>st'. closeTab (activeTabId st) st = Inr st' \<and>
           openTabs st' = take i (openTabs st) @ drop (Suc i) (openTabs st) \<and>
           activeTabId st' =
             (if length (openTabs st) = 1 then []
              else tab_id (openTabs st' ! min i (length (openTabs st) - 2)))"
proof -
  define tabs where "tabs = openTabs st"
  define R where "R = filter (\<lambda>t. tab_id t \<noteq> activeTabId st) tabs"
  define idx where "idx = findIndex (\<lambda>t. tab_id t = activeTabId st) tabs"
  have ct: "closeTab (activeTabId st) st =
      (if 0 < length R then
         (if min idx (int (length R) - 1) < 0 then Inl TypeError
          else Inr (st\<lparr>openTabs := R,
                        activeTabId := tab_id (R ! nat (min idx (int (length R) - 1)))\<rparr>))
       else Inr (st\<lparr>openTabs := R, activeTabId := []\<rparr>))"
    by (simp add: closeTab_def Let_def R_def idx_def tabs_def)
  have rem: "R = take i tabs @ drop (Suc i) tabs"
    using filter_distinct_nth[OF d i] act by (simp add: R_def tabs_def)
  have ix: "idx = int i"
    using findIndex_distinct_nth[OF d i] act by (simp add: idx_def tabs_def)
  have len: "length R = length tabs - 1" using i by (simp add: rem tabs_def)
  show ?thesis
  proof (cases "length tabs = 1")
    case True
    with len have "\<not> 0 < length R" by simp
    with ct have "closeTab (activeTabId st) st = Inr (st\<lparr>openTabs := R, activeTabId := []\<rparr>)"
      by (simp only: if_False)
    with True rem show ?thesis by (simp add: tabs_def)
  next
    case False
    with i have n2: "2 \<le> length tabs" by (simp add: tabs_def)
    with len have pos: "0 < length R" by simp
    have j: "nat (min idx (int (length R) - 1)) = min i (length tabs - 2)"
      using n2 len ix by linarith
    have nn: "\<not> min idx (int (length R) - 1) < 0" using pos ix by linarith
    from ct pos nn have "closeTab (activeTabId st) st =
        Inr (st\<lparr>openTabs := R,
                 activeTabId := tab_id (R ! nat (min idx (int (length R) - 1)))\<rparr>)"
      by (simp only: if_True if_False)
    with False rem j show ?thesis by (simp add: tabs_def)
  qed
qed

theorem closeTab_active_witness:
  "\<exists>st'. closeTab ''tab-2'' exSession = Inr st' \<and>
         openTabs st' = [exTab ''tab-0'' None, exTab ''tab-1'' (Some 7)] \<and>
         activeTabId st' = ''tab-1''"
proof -
  have h1: "distinct (map tab_id (openTabs exSession))"
    by (simp add: exSession_def exTab_def)
  have h2: "2 < length (openTabs exSession)" by (simp add: exSession_def)
  have h3: "tab_id (openTabs exSession ! 2) = activeTabId exSession"
    by (simp add: exSession_def exTab_def)
  have n: "min 2 (length (openTabs exSession) - 2) = 1" by (simp add: exSession_def)
  from closeTab_active [OF h1 h2 h3] obtain st' where
    c: "closeTab (activeTabId exSession) exSession = Inr st'"
    and o: "openTabs st' = take 2 (openTabs exSession) @ drop (Suc 2) (openTabs exSession)"
    and a: "activeTabId st' =
             (if length (openTabs exSession) = 1 then []
              else tab_id (openTabs st' ! min 2 (length (openTabs exSession) - 2)))"
    by blast
  from o have o': "openTabs st' = [exTab ''tab-0'' None, exTab ''tab-1'' (Some 7)]"
    by (simp add: exSession_def)
  from a n o' have "activeTabId st' = ''tab-1''"
    by (simp add: exSession_def exTab_def)
  with c o' show ?thesis by (simp add: exSession_def)
qed

text \<open>
  Claim C10. Closing a tab that is not the active one succeeds, leaves \<open>activeTabId\<close> as
  it was and removes the tabs with that id; with unique tab ids that is exactly the one
  tab at its index.
\<close>

theorem closeTab_inactive:
  assumes "tabId \<noteq> activeTabId st"
  shows "\<exists>st'. closeTab tabId st = Inr st' \<and>
           activeTabId st' = activeTabId st \<and>
           openTabs st' = filter (\<lambda>t. tab_id t \<noteq> tabId) (openTabs st) \<and>
           (\<forall>j. distinct (map tab_id (openTabs st)) \<and> j < length (openTabs st) \<and>
                 tab_id (openTabs st ! j) = tabId \<longrightarrow>
                 openTabs st' = take j (openTabs st) @ drop (Suc j) (openTabs st))"
proof -
  have c: "closeTab tabId st =
            Inr (st\<lparr>openTabs := filter (\<lambda>t. tab_id t \<noteq> tabId) (openTabs st)\<rparr>)"
    using assms by (simp add: closeTab_def Let_def)
  have "\<forall>j. distinct (map tab_id (openTabs st)) \<and> j < length (openTabs st) \<and>
                 tab_id (openTabs st ! j) = tabId \<longrightarrow>
             filter (\<lambda>t. tab_id t \<noteq> tabId) (openTabs st)
               = take j (openTabs st) @ drop (Suc j) (openTabs st)"
    using filter_distinct_nth[of tab_id "openTabs st"] by blast
  with c show ?thesis by simp
qed

theorem closeTab_inactive_witness:
  "\<exists>st'. closeTab ''tab-1'' exSession = Inr st' \<and>
         activeTabId st' = ''tab-2'' \<and>
         openTabs st' = [exTab ''tab-0'' None, exTab ''tab-2'' None]"
proof -
  have h: "''tab-1'' \<noteq> activeTabId exSession" by (simp add: exSession_def)
  from closeTab_inactive [OF h] obtain st' where
    c: "closeTab ''tab-1'' exSession = Inr st'"
    and a: "activeTabId st' = activeTabId exSession"
    and o: "openTabs st' = filter (\<lambda>t. tab_id t \<noteq> ''tab-1'') (openTabs exSession)"
    by blast
  from o have "openTabs st' = [exTab ''tab-0'' None, exTab ''tab-2'' None]"
    by (simp add: exSession_def exTab_def)
  with c a show ?thesis by (simp add: exSession_def)
qed

section \<open>The session invariant and the tabs of persisted requests\<close>

lemma digits_value_string_of_nat: "digits_value (string_of_nat n) = n"
proof (induction n rule: string_of_nat.induct)
  case (1 n)
  show ?case
  proof (cases "n < 10")
    case True
    then have "string_of_nat n = [char_of (48 + n)]" by (simp add: string_of_nat.simps)
    moreover from True have "(48 + n) mod 256 = 48 + n" by simp
    ultimately show ?thesis by (simp add: digits_value_def)
  next
    case False
    then have s: "string_of_nat n = string_of_nat (n div 10) @ [char_of (48 + n mod 10)]"
      by (subst string_of_nat.simps) simp
    have m: "(48 + n mod 10) mod 256 = 48 + n mod 10"
      by (rule mod_less) (simp add: less_le_trans[OF add_strict_left_mono[OF mod_less_divisor]])
    from "1.IH"[OF False] have "digits_value (string_of_nat (n div 10)) = n div 10" .
    with s m show ?thesis by (simp add: digits_value_def)
  qed
qed

lemma tabIdOf_inj: "tabIdOf m = tabIdOf n \<Longrightarrow> m = n"
proof -
  assume "tabIdOf m = tabIdOf n"
  then have "string_of_nat m = string_of_nat n" by (simp add: tabIdOf_def)
  then have "digits_value (string_of_nat m) = digits_value (string_of_nat n)" by simp
  then show ?thesis by (simp add: digits_value_string_of_nat)
qed

lemma linked_ids_Nil: "linked_ids [] = []"
  by (simp add: linked_ids_def map_filter_simps)

lemma linked_ids_Cons:
  "linked_ids (t # ts) = (case requestId t of None \<Rightarrow> linked_ids ts | Some i \<Rightarrow> i # linked_ids ts)"
  by (simp add: linked_ids_def map_filter_simps split: option.splits)

lemma linked_ids_append: "linked_ids (xs @ ys) = linked_ids xs @ linked_ids ys"
  by (induction xs) (auto simp: linked_ids_Nil linked_ids_Cons split: option.splits)

lemma set_linked_ids: "i \<in> set (linked_ids tabs) \<longleftrightarrow> list_ex (\<lambda>t. requestId t = Some i) tabs"
  by (induction tabs) (auto simp: linked_ids_Nil linked_ids_Cons split: option.splits)

lemma linked_ids_filter_subset: "set (linked_ids (filter P tabs)) \<subseteq> set (linked_ids tabs)"
  by (induction tabs) (auto simp: linked_ids_Nil linked_ids_Cons split: option.splits)

lemma distinct_linked_ids_filter:
  "distinct (linked_ids tabs) \<Longrightarrow> distinct (linked_ids (filter P tabs))"
proof (induction tabs)
  case Nil
  then show ?case by simp
next
  case (Cons t ts)
  have sub: "set (linked_ids (filter P ts)) \<subseteq> set (linked_ids ts)"
    by (rule linked_ids_filter_subset)
  from Cons show ?case
    using sub by (auto simp: linked_ids_Cons split: option.splits)
qed

lemma linked_ids_cong:
  "map requestId xs = map requestId ys \<Longrightarrow> linked_ids xs = linked_ids ys"
proof (induction xs arbitrary: ys)
  case Nil
  then show ?case by simp
next
  case (Cons x xs)
  then obtain y ys' where ys: "ys = y # ys'" by (cases ys) auto
  with Cons.prems have "requestId x = requestId y" "map requestId xs = map requestId ys'" by auto
  with Cons.IH[of ys'] ys show ?case by (simp add: linked_ids_Cons split: option.splits)
qed


lemma tab_ids_below:
  "list_all (\<lambda>t. \<exists>k<n. tab_id t = tabIdOf k) tabs \<Longrightarrow> tabIdOf n \<notin> tab_id ` set tabs"
proof
  assume a: "list_all (\<lambda>t. \<exists>k<n. tab_id t = tabIdOf k) tabs"
    and b: "tabIdOf n \<in> tab_id ` set tabs"
  from b obtain t where t: "t \<in> set tabs" "tab_id t = tabIdOf n" by auto
  with a obtain k where "k < n" "tab_id t = tabIdOf k" by (auto simp: list_all_iff)
  with t(2) have "tabIdOf n = tabIdOf k" by simp
  then have "n = k" by (rule tabIdOf_inj)
  with \<open>k < n\<close> show False by simp
qed

lemma tab_ids_below_mono:
  "list_all (\<lambda>t. \<exists>k<n. tab_id t = tabIdOf k) tabs \<Longrightarrow> n \<le> m \<Longrightarrow>
   list_all (\<lambda>t. \<exists>k<m. tab_id t = tabIdOf k) tabs"
  by (induction tabs) (auto intro: less_le_trans)

lemma tab_ids_below_cong:
  "map tab_id xs = map tab_id ys \<Longrightarrow>
   list_all (\<lambda>t. \<exists>k<n. tab_id t = tabIdOf k) xs = list_all (\<lambda>t. \<exists>k<n. tab_id t = tabIdOf k) ys"
proof (induction xs arbitrary: ys)
  case Nil
  then show ?case by simp
next
  case (Cons x xs)
  then obtain y ys' where ys: "ys = y # ys'" by (cases ys) auto
  with Cons.prems have "tab_id x = tab_id y" "map tab_id xs = map tab_id ys'" by auto
  with Cons.IH[of ys'] ys show ?case by simp
qed

lemma inv_append:
  assumes inv: "session_inv st"
    and tabs: "openTabs st' = openTabs st @ [t]"
    and cnt: "tabCounter st' = tabCounter st + 1"
    and tid: "tab_id t = tabIdOf (tabCounter st)"
    and lnk: "case requestId t of None \<Rightarrow> True | Some i \<Rightarrow> i \<notin> set (linked_ids (openTabs st))"
  shows "session_inv st'"
proof -
  from inv have d: "distinct (map tab_id (openTabs st))"
    and b: "list_all (\<lambda>t. \<exists>k<tabCounter st. tab_id t = tabIdOf k) (openTabs st)"
    and l: "distinct (linked_ids (openTabs st))"
    by (simp_all add: session_inv_def)
  from tab_ids_below[OF b] tid have fresh: "tab_id t \<notin> tab_id ` set (openTabs st)" by simp
  have b': "list_all (\<lambda>t. \<exists>k<tabCounter st + 1. tab_id t = tabIdOf k) (openTabs st)"
    using b by (rule tab_ids_below_mono) simp
  have "\<exists>k<tabCounter st + 1. tab_id t = tabIdOf k" using tid by auto
  with b' have 1: "list_all (\<lambda>t. \<exists>k<tabCounter st'. tab_id t = tabIdOf k) (openTabs st')"
    by (simp add: tabs cnt)
  have 2: "distinct (map tab_id (openTabs st'))" using d fresh by (simp add: tabs)
  have 3: "distinct (linked_ids (openTabs st'))"
    using l lnk
    by (auto simp: tabs linked_ids_append linked_ids_Cons linked_ids_Nil split: option.splits)
  from 1 2 3 show ?thesis by (simp add: session_inv_def)
qed

lemma inv_same_ids:
  assumes inv: "session_inv st"
    and cnt: "tabCounter st' = tabCounter st"
    and ids: "map tab_id (openTabs st') = map tab_id (openTabs st)"
    and lnk: "map requestId (openTabs st') = map requestId (openTabs st)"
  shows "session_inv st'"
  using inv unfolding session_inv_def cnt ids linked_ids_cong[OF lnk] tab_ids_below_cong[OF ids]
  by simp

lemma inv_filter:
  assumes inv: "session_inv st"
    and cnt: "tabCounter st' = tabCounter st"
    and tabs: "openTabs st' = filter P (openTabs st)"
  shows "session_inv st'"
  using inv unfolding session_inv_def cnt tabs
  by (auto simp: distinct_map_filter distinct_linked_ids_filter list_all_iff)

lemma linked_ids_relink_subset:
  assumes g: "\<And>t. requestId (g t) = (if tab_id t = a then Some cid else requestId t)"
  shows "set (linked_ids (map g tabs)) \<subseteq> insert cid (set (linked_ids tabs))"
  by (induction tabs) (auto simp: linked_ids_Nil linked_ids_Cons g split: option.splits if_splits)

lemma linked_ids_relink_absent:
  assumes g: "\<And>t. requestId (g t) = (if tab_id t = a then Some cid else requestId t)"
    and na: "a \<notin> tab_id ` set tabs"
  shows "linked_ids (map g tabs) = linked_ids tabs"
proof (rule linked_ids_cong)
  from na have "\<forall>t\<in>set tabs. requestId (g t) = requestId t" by (auto simp: g)
  then show "map requestId (map g tabs) = map requestId tabs" by (induction tabs) auto
qed

lemma distinct_relink:
  assumes g: "\<And>t. requestId (g t) = (if tab_id t = a then Some cid else requestId t)"
  shows "distinct (map tab_id tabs) \<Longrightarrow> distinct (linked_ids tabs) \<Longrightarrow>
         cid \<notin> set (linked_ids tabs) \<Longrightarrow> distinct (linked_ids (map g tabs))"
proof (induction tabs)
  case Nil
  then show ?case by (simp add: linked_ids_Nil)
next
  case (Cons t ts)
  from Cons.prems have dt: "distinct (map tab_id ts)" and nt: "tab_id t \<notin> tab_id ` set ts"
    by auto
  from Cons.prems(2) have dl: "distinct (linked_ids ts)"
    by (auto simp: linked_ids_Cons split: option.splits)
  from Cons.prems(3) have nc: "cid \<notin> set (linked_ids ts)"
    by (auto simp: linked_ids_Cons split: option.splits)
  show ?case
  proof (cases "tab_id t = a")
    case True
    with nt have "a \<notin> tab_id ` set ts" by simp
    then have "linked_ids (map g ts) = linked_ids ts"
      by (rule linked_ids_relink_absent[OF g])
    with True dl nc show ?thesis by (simp add: linked_ids_Cons g)
  next
    case False
    have ih: "distinct (linked_ids (map g ts))" using Cons.IH[OF dt dl nc] .
    have sub: "set (linked_ids (map g ts)) \<subseteq> insert cid (set (linked_ids ts))"
      by (rule linked_ids_relink_subset[OF g])
    show ?thesis
    proof (cases "requestId t")
      case None
      with False ih show ?thesis by (simp add: linked_ids_Cons g)
    next
      case (Some i)
      with Cons.prems(2) have "i \<notin> set (linked_ids ts)" by (simp add: linked_ids_Cons)
      moreover from Some Cons.prems(3) have "i \<noteq> cid" by (auto simp: linked_ids_Cons)
      ultimately have "i \<notin> set (linked_ids (map g ts))" using sub by auto
      with False Some ih show ?thesis by (simp add: linked_ids_Cons g)
    qed
  qed
qed

lemma inv_relink:
  assumes inv: "session_inv st"
    and fresh: "cid \<notin> set (linked_ids (openTabs st))"
    and cnt: "tabCounter st' = tabCounter st"
    and tabs: "openTabs st' = map g (openTabs st)"
    and gid: "\<And>t. tab_id (g t) = tab_id t"
    and g: "\<And>t. requestId (g t) = (if tab_id t = a then Some cid else requestId t)"
  shows "session_inv st'"
proof -
  from inv have d: "distinct (map tab_id (openTabs st))"
    and b: "list_all (\<lambda>t. \<exists>k<tabCounter st. tab_id t = tabIdOf k) (openTabs st)"
    and l: "distinct (linked_ids (openTabs st))"
    by (simp_all add: session_inv_def)
  have ids: "map tab_id (openTabs st') = map tab_id (openTabs st)"
    by (simp add: tabs gid)
  have 1: "distinct (linked_ids (openTabs st'))"
    unfolding tabs using d l fresh by (rule distinct_relink[OF g])
  from d b 1 show ?thesis
    unfolding session_inv_def cnt ids tab_ids_below_cong[OF ids] by simp
qed

lemma string_of_nat_0: "string_of_nat 0 = ''0''"
  by code_simp

lemma inv_initial: "session_inv initialSession"
proof -
  have "\<exists>k<Suc 0. ''tab-0'' = tabIdOf k" by (simp add: tabIdOf_def string_of_nat_0)
  then show ?thesis
    by (simp add: session_inv_def initialSession_def linked_ids_Cons linked_ids_Nil)
qed

lemma inv_loadRequest: "session_inv st \<Longrightarrow> session_inv (loadRequest r st)"
proof (cases "List.find (\<lambda>t. requestId t = Some (req_id r)) (openTabs st)")
  case None
  assume inv: "session_inv st"
  from None have "\<not> list_ex (\<lambda>t. requestId t = Some (req_id r)) (openTabs st)"
    by (auto simp: find_None_iff list_ex_iff)
  then have nl: "req_id r \<notin> set (linked_ids (openTabs st))" by (simp add: set_linked_ids)
  show ?thesis
    by (rule inv_append[OF inv, where t = "last (openTabs (loadRequest r st))"])
       (simp_all add: loadRequest_def None makeTabId_def nl)
next
  case (Some e)
  assume inv: "session_inv st"
  show ?thesis
    by (rule inv_same_ids[OF inv]) (simp_all add: loadRequest_def Some)
qed

lemma inv_newRequest: "session_inv st \<Longrightarrow> session_inv (newRequest f st)"
  by (rule inv_append[where t = "last (openTabs (newRequest f st))"])
     (simp_all add: newRequest_def makeTabId_def)

lemma inv_loadFromHistory: "session_inv st \<Longrightarrow> session_inv (loadFromHistory h st)"
  by (rule inv_append[where t = "last (openTabs (loadFromHistory h st))"])
     (simp_all add: loadFromHistory_def makeTabId_def)

lemma inv_setResponse: "session_inv st \<Longrightarrow> session_inv (setResponse r st)"
  by (rule inv_same_ids) (simp_all add: setResponse_def comp_def if_distrib cong: if_cong)

lemma cur_id_patched: "cur_id (patched e r) = cur_id r"
  by (cases e) simp_all

lemma currentTab_active:
  assumes d: "distinct (map tab_id (openTabs st))"
    and t: "t \<in> set (openTabs st)" and a: "tab_id t = activeTabId st"
  shows "currentTab st = Some t"
  using find_distinct_key[OF d t] a by (simp add: currentTab_def)

lemma cur_id_active:
  assumes d: "distinct (map tab_id (openTabs st))"
    and t: "t \<in> set (openTabs st)" and a: "tab_id t = activeTabId st"
  shows "cur_id (currentRequest st) = requestId t"
  by (simp add: currentRequest_def currentTab_active[OF d t a])

lemma tab_id_setCurrentRequest:
  "map tab_id (openTabs (setCurrentRequest req st)) = map tab_id (openTabs st)"
  by (simp add: setCurrentRequest_def comp_def if_distrib cong: if_cong)

lemma inv_editField:
  assumes inv: "session_inv st"
  shows "session_inv (editField e st)"
proof (rule inv_same_ids[OF inv])
  from inv have d: "distinct (map tab_id (openTabs st))" by (simp add: session_inv_def)
  show "tabCounter (editField e st) = tabCounter st"
    by (simp add: editField_def setCurrentRequest_def)
  show "map tab_id (openTabs (editField e st)) = map tab_id (openTabs st)"
    by (simp add: editField_def tab_id_setCurrentRequest)
  have "\<forall>t\<in>set (openTabs st). tab_id t = activeTabId st \<longrightarrow>
          cur_id (patched e (currentRequest st)) = requestId t"
    using cur_id_active[OF d] by (simp add: cur_id_patched)
  then show "map requestId (openTabs (editField e st)) = map requestId (openTabs st)"
    by (simp add: editField_def setCurrentRequest_def)
qed

lemma inv_saveRequest:
  assumes inv: "session_inv st"
    and fresh: "fresh_reply (SaveRequest n reply) st"
  shows "session_inv (saveRequest n reply st)"
proof (cases reply)
  case None
  with inv show ?thesis by (simp add: saveRequest_def Let_def)
next
  case (Some cid)
  with fresh have fr: "cid \<notin> set (linked_ids (openTabs st))" by simp
  show ?thesis
  proof (cases "truthy_id (cur_id (currentRequest st))")
    case True
    show ?thesis
      by (rule inv_same_ids[OF inv])
         (simp_all add: saveRequest_def Let_def Some True comp_def if_distrib cong: if_cong)
  next
    case False
    show ?thesis
    proof (rule inv_relink[OF inv fr, where a = "activeTabId st"])
      show "tabCounter (saveRequest n reply st) = tabCounter st"
        by (simp add: saveRequest_def Let_def Some False setCurrentRequest_def)
      show "openTabs (saveRequest n reply st) =
          map (\<lambda>t. if tab_id t = activeTabId st
                    then t\<lparr>requestId := Some cid,
                           tab_name := (if truthy_string n then or_empty n
                                        else cur_name (currentRequest st)),
                           tab_method := cur_method (currentRequest st),
                           tab_url := cur_url (currentRequest st),
                           headers := cur_headers (currentRequest st),
                           queryParams := cur_queryParams (currentRequest st),
                           tab_body := cur_body (currentRequest st),
                           folder_id := cur_folder_id (currentRequest st),
                           dirty := False\<rparr>
                    else t) (openTabs st)"
        by (simp add: saveRequest_def Let_def Some False setCurrentRequest_def)
    qed simp_all
  qed
qed

lemma inv_closeTab:
  assumes inv: "session_inv st" and c: "closeTab i st = Inr st'"
  shows "session_inv st'"
proof (rule inv_filter[OF inv, where P = "\<lambda>t. tab_id t \<noteq> i"])
  from c show "tabCounter st' = tabCounter st"
    by (auto simp: closeTab_def Let_def split: if_splits)
  from c show "openTabs st' = filter (\<lambda>t. tab_id t \<noteq> i) (openTabs st)"
    by (auto simp: closeTab_def Let_def split: if_splits)
qed

lemma inv_closeOtherTabs: "session_inv st \<Longrightarrow> session_inv (closeOtherTabs i st)"
proof (cases "filter (\<lambda>t. tab_id t = i) (openTabs st) = []")
  case True
  assume "session_inv st"
  with True show ?thesis by (simp add: closeOtherTabs_def)
next
  case False
  assume inv: "session_inv st"
  show ?thesis
    by (rule inv_filter[OF inv, where P = "\<lambda>t. tab_id t = i"])
       (simp_all add: closeOtherTabs_def False)
qed

lemma inv_closeAllTabs: "session_inv st \<Longrightarrow> session_inv (closeAllTabs st)"
  by (simp add: session_inv_def closeAllTabs_def linked_ids_Nil)

lemma inv_selectTab: "session_inv st \<Longrightarrow> session_inv (selectTab i st)"
  by (simp add: session_inv_def selectTab_def)

lemma inv_deleteRequest:
  "session_inv st \<Longrightarrow> deleteRequest rid st = Inr st' \<Longrightarrow> session_inv st'"
  by (auto simp: deleteRequest_def split: option.splits intro: inv_closeTab)

lemma inv_apply_event:
  assumes inv: "session_inv st" and fr: "fresh_reply e st" and ap: "apply_event e st = Inr st'"
  shows "session_inv st'"
proof (cases e)
  case (SaveRequest n reply)
  with inv fr ap show ?thesis using inv_saveRequest by auto
next
  case (CloseTab i)
  with inv ap show ?thesis using inv_closeTab by auto
next
  case (DeleteRequest rid)
  with inv ap show ?thesis using inv_deleteRequest by auto
qed (use inv ap in \<open>auto simp: inv_loadRequest inv_newRequest inv_editField inv_setResponse
      inv_closeOtherTabs inv_closeAllTabs inv_selectTab inv_loadFromHistory\<close>)

lemma reachable_inv: "reachable st \<Longrightarrow> session_inv st"
  by (induction rule: reachable.induct) (auto intro: inv_initial inv_apply_event)

lemma reachable_distinct_tab_ids: "reachable st \<Longrightarrow> distinct (map tab_id (openTabs st))"
  using reachable_inv by (simp add: session_inv_def)

lemma find_list_ex:
  "list_ex P xs \<Longrightarrow> \<exists>x. List.find P xs = Some x \<and> x \<in> set xs \<and> P x"
  by (induction xs) auto


lemma loadRequest_existing:
  assumes "list_ex (\<lambda>t. requestId t = Some (req_id R)) (openTabs st)"
  shows "\<exists>e. e \<in> set (openTabs st) \<and> requestId e = Some (req_id R) \<and>
             List.find (\<lambda>t. requestId t = Some (req_id R)) (openTabs st) = Some e \<and>
             loadRequest R st = st\<lparr>activeTabId := tab_id e\<rparr>"
proof -
  from find_list_ex[OF assms] obtain e where
    e: "List.find (\<lambda>t. requestId t = Some (req_id R)) (openTabs st) = Some e"
       "e \<in> set (openTabs st)" "requestId e = Some (req_id R)" by blast
  then show ?thesis by (auto simp: loadRequest_def)
qed

lemma loadRequest_fresh:
  assumes "\<not> list_ex (\<lambda>t. requestId t = Some (req_id R)) (openTabs st)"
  shows "\<exists>t. openTabs (loadRequest R st) = openTabs st @ [t] \<and> \<not> dirty t \<and>
             requestId t = Some (req_id R) \<and> tab_id t = tabIdOf (tabCounter st) \<and>
             activeTabId (loadRequest R st) = tab_id t \<and>
             tabCounter (loadRequest R st) = tabCounter st + 1"
proof -
  from assms have "List.find (\<lambda>t. requestId t = Some (req_id R)) (openTabs st) = None"
    by (simp add: find_none_list_ex)
  then show ?thesis by (simp add: loadRequest_def makeTabId_def)
qed




lemma tabIdOf_1: "tabIdOf 1 = ''tab-1''"
  by code_simp

lemma tabIdOf_Suc_0: "tabIdOf (Suc 0) = ''tab-1''"
  using tabIdOf_1 by simp

lemma reachable_after_open: "reachable (loadRequest (exRequest 7) initialSession)"
  by (rule reachable_step[OF reachable_init, of "LoadRequest (exRequest 7)"]) simp_all

lemma open_on_initial:
  "openTabs (loadRequest (exRequest 7) initialSession)
     = openTabs initialSession @
       [\<lparr>tab_id = ''tab-1'', requestId = Some 7, tab_name = ''r'', tab_method = GET,
         tab_url = [], headers = [emptyParam], queryParams = [emptyParam], tab_body = [],
         folder_id = None, response = None, dirty = False\<rparr>] \<and>
   activeTabId (loadRequest (exRequest 7) initialSession) = ''tab-1''"
  by (simp add: loadRequest_def initialSession_def exRequest_def makeTabId_def tabIdOf_Suc_0
        paramsOf_def or_empty_def truthy_id_def)


lemma same_id_same_tab:
  "distinct (map tab_id tabs) \<Longrightarrow> t \<in> set tabs \<Longrightarrow> t' \<in> set tabs \<Longrightarrow>
   tab_id t' = tab_id t \<Longrightarrow> t' = t"
  by (meson distinct_map inj_onD)

lemma clean_after_append:
  assumes inv: "session_inv st"
    and tabs: "openTabs st' = openTabs st @ [new]"
    and tid: "tab_id new = tabIdOf (tabCounter st)"
    and t: "t \<in> set (openTabs st)" and t': "t' \<in> set (openTabs st')"
    and same: "tab_id t' = tab_id t"
  shows "t' = t"
proof -
  from inv have d: "distinct (map tab_id (openTabs st))"
    and b: "list_all (\<lambda>t. \<exists>k<tabCounter st. tab_id t = tabIdOf k) (openTabs st)"
    by (simp_all add: session_inv_def)
  from tab_ids_below[OF b] tid have "tab_id new \<notin> tab_id ` set (openTabs st)" by simp
  with t same have "t' \<noteq> new" by auto
  with t' tabs have "t' \<in> set (openTabs st)" by simp
  from same_id_same_tab[OF d t this same] show ?thesis .
qed

lemma clean_after_map:
  assumes inv: "session_inv st"
    and tabs: "openTabs st' = map g (openTabs st)"
    and gid: "\<And>x. tab_id (g x) = tab_id x"
    and gd: "\<And>x. dirty (g x) \<Longrightarrow> dirty x"
    and t: "t \<in> set (openTabs st)" and t': "t' \<in> set (openTabs st')"
    and same: "tab_id t' = tab_id t" and dt: "dirty t'"
  shows "dirty t"
proof -
  from inv have d: "distinct (map tab_id (openTabs st))" by (simp add: session_inv_def)
  from t' tabs obtain x where x: "x \<in> set (openTabs st)" "t' = g x" by auto
  with same gid have "tab_id x = tab_id t" by simp
  with same_id_same_tab[OF d t x(1)] have "x = t" by simp
  with x(2) dt gd show ?thesis by simp
qed

lemma clean_after_filter:
  assumes inv: "session_inv st"
    and tabs: "openTabs st' = filter P (openTabs st)"
    and t: "t \<in> set (openTabs st)" and t': "t' \<in> set (openTabs st')"
    and same: "tab_id t' = tab_id t"
  shows "t' = t"
proof -
  from inv have d: "distinct (map tab_id (openTabs st))" by (simp add: session_inv_def)
  from t' tabs have "t' \<in> set (openTabs st)" by simp
  from same_id_same_tab[OF d t this same] show ?thesis .
qed

lemma clean_after_same:
  assumes inv: "session_inv st"
    and tabs: "openTabs st' = openTabs st"
    and t: "t \<in> set (openTabs st)" and t': "t' \<in> set (openTabs st')"
    and same: "tab_id t' = tab_id t"
  shows "t' = t"
  by (rule clean_after_filter[OF inv _ t t' same, of "\<lambda>t. True"]) (simp add: tabs)

lemma closeTab_tabs:
  "closeTab i st = Inr st' \<Longrightarrow> openTabs st' = filter (\<lambda>t. tab_id t \<noteq> i) (openTabs st)"
  by (auto simp: closeTab_def Let_def split: if_splits)

lemma saveRequest_tabs:
  "\<exists>g. openTabs (saveRequest n reply st) = map g (openTabs st) \<and>
       (\<forall>x. tab_id (g x) = tab_id x) \<and> (\<forall>x. dirty (g x) \<longrightarrow> dirty x)"
proof (cases reply)
  case None
  then have "openTabs (saveRequest n reply st) = map (\<lambda>x. x) (openTabs st)"
    by (simp add: saveRequest_def Let_def)
  then show ?thesis by (intro exI[of _ "\<lambda>x. x"]) simp
next
  case (Some cid)
  show ?thesis
  proof (cases "truthy_id (cur_id (currentRequest st))")
    case True
    show ?thesis
      by (intro exI[of _ "\<lambda>t. if tab_id t = activeTabId st
                                 then (if truthy_string n
                                       then t\<lparr>tab_name := (if truthy_string n then or_empty n
                                                else cur_name (currentRequest st)), dirty := False\<rparr>
                                       else t\<lparr>dirty := False\<rparr>)
                                 else t"])
         (simp add: saveRequest_def Let_def Some True)
  next
    case False
    show ?thesis
      by (intro exI[of _ "(\<lambda>t. if tab_id t = activeTabId st
                                 then (if truthy_string n
                                       then t\<lparr>tab_name := (if truthy_string n then or_empty n
                                                else cur_name (currentRequest st)), dirty := False\<rparr>
                                       else t\<lparr>dirty := False\<rparr>)
                                 else t) \<circ>
                          (\<lambda>t. if tab_id t = activeTabId st
                    then t\<lparr>requestId := Some cid,
                           tab_name := (if truthy_string n then or_empty n
                                        else cur_name (currentRequest st)),
                           tab_method := cur_method (currentRequest st),
                           tab_url := cur_url (currentRequest st),
                           headers := cur_headers (currentRequest st),
                           queryParams := cur_queryParams (currentRequest st),
                           tab_body := cur_body (currentRequest st),
                           folder_id := cur_folder_id (currentRequest st),
                           dirty := True\<rparr>
                    else t)"])
         (simp add: saveRequest_def Let_def Some False setCurrentRequest_def)
  qed
qed

lemma no_dirt_without_edit:
  assumes inv: "session_inv st"
    and ne: "\<forall>e. ev \<noteq> EditField e"
    and ap: "apply_event ev st = Inr st'"
    and t: "t \<in> set (openTabs st)" and t': "t' \<in> set (openTabs st')"
    and same: "tab_id t' = tab_id t" and dt: "dirty t'"
  shows "dirty t"
proof (cases ev)
  case (LoadRequest R)
  with ap have st': "st' = loadRequest R st" by simp
  show ?thesis
  proof (cases "list_ex (\<lambda>t. requestId t = Some (req_id R)) (openTabs st)")
    case True
    from loadRequest_existing[OF True] st' have "openTabs st' = openTabs st" by auto
    from clean_after_same[OF inv this t t' same] dt show ?thesis by simp
  next
    case False
    from loadRequest_fresh[OF False] st' obtain new where
      "openTabs st' = openTabs st @ [new]" "tab_id new = tabIdOf (tabCounter st)" by auto
    from clean_after_append[OF inv this t t' same] dt show ?thesis by simp
  qed
next
  case (NewRequest f)
  with ap have st': "st' = newRequest f st" by simp
  have "\<exists>new. openTabs st' = openTabs st @ [new] \<and> tab_id new = tabIdOf (tabCounter st)"
    by (simp add: st' newRequest_def makeTabId_def)
  then obtain new where
    "openTabs st' = openTabs st @ [new]" "tab_id new = tabIdOf (tabCounter st)" by auto
  from clean_after_append[OF inv this t t' same] dt show ?thesis by simp
next
  case (EditField e)
  with ne show ?thesis by simp
next
  case (SetResponse r)
  with ap have st': "openTabs st' =
      map (\<lambda>t. if tab_id t = activeTabId st then t\<lparr>response := r\<rparr> else t) (openTabs st)"
    by (auto simp: setResponse_def)
  show ?thesis
    by (rule clean_after_map[OF inv st' _ _ t t' same dt]) (simp_all split: if_splits)
next
  case (SaveRequest n reply)
  with ap have st': "st' = saveRequest n reply st" by simp
  from saveRequest_tabs[of n reply st] st' obtain g where
    g: "openTabs st' = map g (openTabs st)" "\<And>x. tab_id (g x) = tab_id x"
       "\<And>x. dirty (g x) \<Longrightarrow> dirty x" by auto
  show ?thesis by (rule clean_after_map[OF inv g t t' same dt])
next
  case (CloseTab i)
  with ap have "openTabs st' = filter (\<lambda>t. tab_id t \<noteq> i) (openTabs st)"
    by (simp add: closeTab_tabs)
  from clean_after_filter[OF inv this t t' same] dt show ?thesis by simp
next
  case (CloseOtherTabs i)
  with ap have "openTabs st' = filter (\<lambda>t. tab_id t = i) (openTabs st) \<or> openTabs st' = openTabs st"
    by (auto simp: closeOtherTabs_def Let_def)
  with clean_after_filter[OF inv _ t t' same] clean_after_same[OF inv _ t t' same] dt
  show ?thesis by blast
next
  case CloseAllTabs
  with ap t' show ?thesis by (auto simp: closeAllTabs_def)
next
  case (SelectTab i)
  with ap have "openTabs st' = openTabs st" by (auto simp: selectTab_def)
  from clean_after_same[OF inv this t t' same] dt show ?thesis by simp
next
  case (DeleteRequest rid)
  with ap have "openTabs st' = openTabs st \<or>
      (\<exists>i. openTabs st' = filter (\<lambda>t. tab_id t \<noteq> i) (openTabs st))"
    by (auto simp: deleteRequest_def closeTab_tabs split: option.splits)
  with clean_after_filter[OF inv _ t t' same] clean_after_same[OF inv _ t t' same] dt
  show ?thesis by blast
next
  case (LoadFromHistory h)
  with ap have st': "st' = loadFromHistory h st" by simp
  have "\<exists>new. openTabs st' = openTabs st @ [new] \<and> tab_id new = tabIdOf (tabCounter st)"
    by (simp add: st' loadFromHistory_def makeTabId_def)
  then obtain new where
    "openTabs st' = openTabs st @ [new]" "tab_id new = tabIdOf (tabCounter st)" by auto
  from clean_after_append[OF inv this t t' same] dt show ?thesis by simp
qed

lemma editField_after_open:
  assumes inv: "session_inv st"
    and tabs: "openTabs st1 = openTabs st @ [t]"
    and tid: "tab_id t = tabIdOf (tabCounter st)"
    and act: "activeTabId st1 = tab_id t"
  shows "\<exists>t'. openTabs (editField e st1) = openTabs st @ [t'] \<and> tab_id t' = tab_id t \<and> dirty t'"
proof -
  from inv have b: "list_all (\<lambda>t. \<exists>k<tabCounter st. tab_id t = tabIdOf k) (openTabs st)"
    by (simp add: session_inv_def)
  from tab_ids_below[OF b] tid have "\<forall>x\<in>set (openTabs st). tab_id x \<noteq> tab_id t" by force
  then have "map (\<lambda>x. if tab_id x = tab_id t then f x else x) (openTabs st) = openTabs st" for f
    by (induction "openTabs st") (auto simp: map_idI)
  then show ?thesis
    by (simp add: editField_def setCurrentRequest_def tabs act)
qed

lemma editField_effect:
  "length (openTabs (editField e st)) = length (openTabs st) \<and>
   activeTabId (editField e st) = activeTabId st \<and>
   (\<forall>i<length (openTabs st).
      tab_id (openTabs (editField e st) ! i) = tab_id (openTabs st ! i) \<and>
      (if tab_id (openTabs st ! i) = activeTabId st
       then dirty (openTabs (editField e st) ! i)
       else openTabs (editField e st) ! i = openTabs st ! i))"
  by (simp add: editField_def setCurrentRequest_def)

text \<open>
  Claim C9. In every session state: \<open>newRequest\<close> appends a tab that is dirty, unlinked
  and active; \<open>loadRequest\<close> of a request with no open tab appends a tab that is not
  dirty, linked to the request and active. Every field edit, in every state, keeps the
  tab list's length, ids and active tab, makes each tab carrying the active id dirty and
  leaves every other tab exactly as it was; so the first edit made while the opened tab
  is active is what makes it dirty, and an edit of another tab leaves it clean. In
  reachable states an edit right after the open changes that tab alone, and no gesture
  other than a field edit turns a clean tab dirty.
\<close>

theorem dirty_on_creation:
  "(\<exists>t. openTabs (newRequest f st) = openTabs st @ [t] \<and> dirty t \<and>
        requestId t = None \<and> activeTabId (newRequest f st) = tab_id t) \<and>
   (\<not> list_ex (\<lambda>t. requestId t = Some (req_id R)) (openTabs st) \<longrightarrow>
      (\<exists>t. openTabs (loadRequest R st) = openTabs st @ [t] \<and> \<not> dirty t \<and>
            requestId t = Some (req_id R) \<and> activeTabId (loadRequest R st) = tab_id t \<and>
            (reachable st \<longrightarrow>
               (\<exists>t'. openTabs (editField e (loadRequest R st)) = openTabs st @ [t'] \<and>
                     tab_id t' = tab_id t \<and> dirty t')))) \<and>
   (length (openTabs (editField e st)) = length (openTabs st) \<and>
    activeTabId (editField e st) = activeTabId st \<and>
    (\<forall>i<length (openTabs st).
       tab_id (openTabs (editField e st) ! i) = tab_id (openTabs st ! i) \<and>
       (if tab_id (openTabs st ! i) = activeTabId st
        then dirty (openTabs (editField e st) ! i)
        else openTabs (editField e st) ! i = openTabs st ! i))) \<and>
   (reachable st \<longrightarrow>
      (\<forall>ev st' t t'. (\<forall>e. ev \<noteq> EditField e) \<and> apply_event ev st = Inr st' \<and>
           t \<in> set (openTabs st) \<and> \<not> dirty t \<and> t' \<in> set (openTabs st') \<and>
           tab_id t' = tab_id t \<longrightarrow> \<not> dirty t'))"
proof -
  have 1: "\<exists>t. openTabs (newRequest f st) = openTabs st @ [t] \<and> dirty t \<and>
              requestId t = None \<and> activeTabId (newRequest f st) = tab_id t"
    by (simp add: newRequest_def makeTabId_def)
  have 2: "\<not> list_ex (\<lambda>t. requestId t = Some (req_id R)) (openTabs st) \<longrightarrow>
      (\<exists>t. openTabs (loadRequest R st) = openTabs st @ [t] \<and> \<not> dirty t \<and>
            requestId t = Some (req_id R) \<and> activeTabId (loadRequest R st) = tab_id t \<and>
            (reachable st \<longrightarrow>
               (\<exists>t'. openTabs (editField e (loadRequest R st)) = openTabs st @ [t'] \<and>
                     tab_id t' = tab_id t \<and> dirty t')))"
  proof
    assume n: "\<not> list_ex (\<lambda>t. requestId t = Some (req_id R)) (openTabs st)"
    from loadRequest_fresh[OF n] obtain t where
      t: "openTabs (loadRequest R st) = openTabs st @ [t]" "\<not> dirty t"
         "requestId t = Some (req_id R)" "tab_id t = tabIdOf (tabCounter st)"
         "activeTabId (loadRequest R st) = tab_id t" by blast
    have "reachable st \<longrightarrow>
            (\<exists>t'. openTabs (editField e (loadRequest R st)) = openTabs st @ [t'] \<and>
                  tab_id t' = tab_id t \<and> dirty t')"
    proof
      assume "reachable st"
      then have inv: "session_inv st" by (rule reachable_inv)
      from editField_after_open[OF inv t(1) t(4) t(5)]
      show "\<exists>t'. openTabs (editField e (loadRequest R st)) = openTabs st @ [t'] \<and>
                  tab_id t' = tab_id t \<and> dirty t'" .
    qed
    with t show "\<exists>t. openTabs (loadRequest R st) = openTabs st @ [t] \<and> \<not> dirty t \<and>
            requestId t = Some (req_id R) \<and> activeTabId (loadRequest R st) = tab_id t \<and>
            (reachable st \<longrightarrow>
               (\<exists>t'. openTabs (editField e (loadRequest R st)) = openTabs st @ [t'] \<and>
                     tab_id t' = tab_id t \<and> dirty t'))"
      by blast
  qed
  note 3 = editField_effect[of e st]
  have 4: "reachable st \<longrightarrow>
      (\<forall>ev st' t t'. (\<forall>e. ev \<noteq> EditField e) \<and> apply_event ev st = Inr st' \<and>
           t \<in> set (openTabs st) \<and> \<not> dirty t \<and> t' \<in> set (openTabs st') \<and>
           tab_id t' = tab_id t \<longrightarrow> \<not> dirty t')"
  proof
    assume "reachable st"
    then have inv: "session_inv st" by (rule reachable_inv)
    show "\<forall>ev st' t t'. (\<forall>e. ev \<noteq> EditField e) \<and> apply_event ev st = Inr st' \<and>
           t \<in> set (openTabs st) \<and> \<not> dirty t \<and> t' \<in> set (openTabs st') \<and>
           tab_id t' = tab_id t \<longrightarrow> \<not> dirty t'"
      using no_dirt_without_edit[OF inv] by blast
  qed
  show ?thesis by (rule conjI[OF 1 conjI[OF 2 conjI[OF 3 4]]])
qed

lemma tabIdOf_2: "tabIdOf 2 = ''tab-2''"
  by code_simp

lemma open_second:
  "openTabs (loadRequest (exRequest 8) (loadRequest (exRequest 7) initialSession))
     = openTabs (loadRequest (exRequest 7) initialSession) @
       [\<lparr>tab_id = ''tab-2'', requestId = Some 8, tab_name = ''r'', tab_method = GET,
         tab_url = [], headers = [emptyParam], queryParams = [emptyParam], tab_body = [],
         folder_id = None, response = None, dirty = False\<rparr>]"
proof -
  define s1 where "s1 = loadRequest (exRequest 7) initialSession"
  have c: "tabCounter s1 = 2"
    by (simp add: s1_def loadRequest_def initialSession_def exRequest_def makeTabId_def)
  have f: "List.find (\<lambda>t. requestId t = Some (req_id (exRequest 8))) (openTabs s1) = None"
    using open_on_initial by (simp add: s1_def initialSession_def exRequest_def)
  have "openTabs (loadRequest (exRequest 8) s1) = openTabs s1 @
       [\<lparr>tab_id = ''tab-2'', requestId = Some 8, tab_name = ''r'', tab_method = GET,
         tab_url = [], headers = [emptyParam], queryParams = [emptyParam], tab_body = [],
         folder_id = None, response = None, dirty = False\<rparr>]"
    unfolding loadRequest_def[of "exRequest 8" s1] f
    by (simp add: makeTabId_def c tabIdOf_2 exRequest_def paramsOf_def or_empty_def
          truthy_id_def)
  then show ?thesis by (simp only: s1_def)
qed

lemma two_opened:
  "map (\<lambda>t. (tab_id t, requestId t, dirty t))
     (openTabs (loadRequest (exRequest 8) (loadRequest (exRequest 7) initialSession)))
     = [(''tab-0'', None, True), (''tab-1'', Some 7, False), (''tab-2'', Some 8, False)]"
  unfolding open_second using open_on_initial by (simp add: initialSession_def)

lemma reachable_two_opened_selected:
  "reachable (selectTab ''tab-1''
     (loadRequest (exRequest 8) (loadRequest (exRequest 7) initialSession)))"
proof -
  have "reachable (loadRequest (exRequest 8) (loadRequest (exRequest 7) initialSession))"
    by (rule reachable_step[OF reachable_after_open, of "LoadRequest (exRequest 8)"]) simp_all
  then show ?thesis
    by (rule reachable_step[where e = "SelectTab ''tab-1''"]) simp_all
qed

theorem dirty_on_creation_witness:
  "(\<exists>t. openTabs (newRequest None initialSession) = openTabs initialSession @ [t] \<and> dirty t \<and>
        requestId t = None \<and> activeTabId (newRequest None initialSession) = tab_id t) \<and>
   (\<exists>t. openTabs (loadRequest (exRequest 7) initialSession) = openTabs initialSession @ [t] \<and>
        \<not> dirty t \<and> requestId t = Some 7 \<and>
        (\<exists>t'. openTabs (editField (SetUrl ''u'') (loadRequest (exRequest 7) initialSession))
                = openTabs initialSession @ [t'] \<and> tab_id t' = tab_id t \<and> dirty t')) \<and>
   map (\<lambda>t. (tab_id t, requestId t, dirty t))
     (openTabs (selectTab ''tab-1''
        (loadRequest (exRequest 8) (loadRequest (exRequest 7) initialSession))))
     = [(''tab-0'', None, True), (''tab-1'', Some 7, False), (''tab-2'', Some 8, False)] \<and>
   dirty (openTabs (editField (SetUrl ''u'') (selectTab ''tab-1''
        (loadRequest (exRequest 8) (loadRequest (exRequest 7) initialSession)))) ! 1) \<and>
   openTabs (editField (SetUrl ''u'') (selectTab ''tab-1''
        (loadRequest (exRequest 8) (loadRequest (exRequest 7) initialSession)))) ! 2
     = openTabs (selectTab ''tab-1''
        (loadRequest (exRequest 8) (loadRequest (exRequest 7) initialSession))) ! 2"
proof -
  define st2 where "st2 = selectTab ''tab-1''
        (loadRequest (exRequest 8) (loadRequest (exRequest 7) initialSession))"
  have i: "req_id (exRequest 7) = 7" by (simp add: exRequest_def)
  have n: "\<not> list_ex (\<lambda>t. requestId t = Some (req_id (exRequest 7))) (openTabs initialSession)"
    by (simp add: initialSession_def)
  note T0 = dirty_on_creation [of None initialSession "exRequest 7" "SetUrl ''u''"]
  from T0 n reachable_init have a:
    "(\<exists>t. openTabs (newRequest None initialSession) = openTabs initialSession @ [t] \<and> dirty t \<and>
        requestId t = None \<and> activeTabId (newRequest None initialSession) = tab_id t) \<and>
     (\<exists>t. openTabs (loadRequest (exRequest 7) initialSession) = openTabs initialSession @ [t] \<and>
        \<not> dirty t \<and> requestId t = Some 7 \<and>
        (\<exists>t'. openTabs (editField (SetUrl ''u'') (loadRequest (exRequest 7) initialSession))
                = openTabs initialSession @ [t'] \<and> tab_id t' = tab_id t \<and> dirty t'))"
    unfolding i by blast
  have tabs: "map (\<lambda>t. (tab_id t, requestId t, dirty t)) (openTabs st2)
     = [(''tab-0'', None, True), (''tab-1'', Some 7, False), (''tab-2'', Some 8, False)]"
    using two_opened by (simp add: st2_def selectTab_def)
  have act: "activeTabId st2 = ''tab-1''" by (simp add: st2_def selectTab_def)
  have "length (map (\<lambda>t. (tab_id t, requestId t, dirty t)) (openTabs st2)) = 3"
    unfolding tabs by simp
  then have len: "length (openTabs st2) = 3" by simp
  have "map (\<lambda>t. (tab_id t, requestId t, dirty t)) (openTabs st2) ! 1
      = (''tab-1'', Some 7, False)" unfolding tabs by simp
  with len have id1: "tab_id (openTabs st2 ! 1) = ''tab-1''" by simp
  have "map (\<lambda>t. (tab_id t, requestId t, dirty t)) (openTabs st2) ! 2
      = (''tab-2'', Some 8, False)" unfolding tabs by simp
  with len have id2: "tab_id (openTabs st2 ! 2) = ''tab-2''" by simp
  note T2 = dirty_on_creation [of None st2 "exRequest 7" "SetUrl ''u''"]
  from T2 have e: "\<forall>i<length (openTabs st2).
       tab_id (openTabs (editField (SetUrl ''u'') st2) ! i) = tab_id (openTabs st2 ! i) \<and>
       (if tab_id (openTabs st2 ! i) = activeTabId st2
        then dirty (openTabs (editField (SetUrl ''u'') st2) ! i)
        else openTabs (editField (SetUrl ''u'') st2) ! i = openTabs st2 ! i)"
    by blast
  have l1: "(1::nat) < length (openTabs st2)" and l2: "(2::nat) < length (openTabs st2)"
    using len by simp_all
  from e l1 have "if tab_id (openTabs st2 ! 1) = activeTabId st2
        then dirty (openTabs (editField (SetUrl ''u'') st2) ! 1)
        else openTabs (editField (SetUrl ''u'') st2) ! 1 = openTabs st2 ! 1" by blast
  with id1 act have b: "dirty (openTabs (editField (SetUrl ''u'') st2) ! 1)" by simp
  from e l2 have "if tab_id (openTabs st2 ! 2) = activeTabId st2
        then dirty (openTabs (editField (SetUrl ''u'') st2) ! 2)
        else openTabs (editField (SetUrl ''u'') st2) ! 2 = openTabs st2 ! 2" by blast
  with id2 act have c: "openTabs (editField (SetUrl ''u'') st2) ! 2 = openTabs st2 ! 2" by simp
  from a tabs b c show ?thesis unfolding st2_def by blast
qed

end
